theory Spec2Isabelle
  imports Main "HOL-Library.Word"
begin

unbundle bit_operations_syntax

section \<open>C scalars, characters and number formatting\<close>

text \<open>
  The C types of the sources: \<open>long long\<close> and \<open>unsigned long long\<close> are 64-bit words,
  \<open>int\<close> and \<open>unsigned int\<close> are 32-bit words; a signed comparison reads the word with
  \<open>sint\<close>, an unsigned one with the order of words. Arithmetic wraps around.
  A C string is the list of its characters before the terminating NUL; a \<open>char *\<close> that
  may be null is a \<open>string option\<close>.
\<close>

type_synonym ll = "64 word"
type_synonym Patient = "64 word"
type_synonym Plate = "32 word"
type_synonym Visit = "32 word"
type_synonym Field = "32 word"
type_synonym TransactionID = "64 word"

definition isdigit :: "char \<Rightarrow> bool" where
  "isdigit c = (48 \<le> (of_char c :: nat) \<and> (of_char c :: nat) \<le> 57)"

definition isspace :: "char \<Rightarrow> bool" where
  "isspace c = ((of_char c :: nat) = 32 \<or> (9 \<le> (of_char c :: nat) \<and> (of_char c :: nat) \<le> 13))"

definition digit_char :: "nat \<Rightarrow> char" where
  "digit_char d = ''0123456789'' ! d"

function dec_nat :: "nat \<Rightarrow> string" where
  "dec_nat n = (if n < 10 then [digit_char n] else dec_nat (n div 10) @ [digit_char (n mod 10)])"
  by pat_completeness auto
termination
  by (relation "measure id") auto

text \<open>What \<open>printf\<close> writes for a signed decimal conversion of the integer \<open>i\<close>.\<close>

definition dec_int :: "int \<Rightarrow> string" where
  "dec_int i = (if i < 0 then CHR ''-'' # dec_nat (nat (- i)) else dec_nat (nat i))"

text \<open>\<open>%lld\<close> reads its 64-bit argument as signed, \<open>%d\<close> its 32-bit argument as signed.\<close>

definition fmt_lld :: "64 word \<Rightarrow> string" where
  "fmt_lld w = dec_int (sint w)"

definition fmt_d :: "32 word \<Rightarrow> string" where
  "fmt_d w = dec_int (sint w)"

section \<open>RangeList (rangelist.c)\<close>

text \<open>
  A \<open>RangeList\<close> is a singly linked list of nodes \<open>{next, min, max}\<close>; the model is the list
  of its nodes from the head on.
\<close>

datatype rl_node = RL (min_of: ll) (max_of: ll)

type_synonym RangeList = "rl_node list"

text \<open>The exchange of \<open>min\<close> and \<open>max\<close> by three exclusive ors, as the source writes it.\<close>

definition xor_swap :: "rl_node \<Rightarrow> rl_node" where
  "xor_swap r =
     (let mn1 = min_of r XOR max_of r;
          mx1 = max_of r XOR mn1;
          mn2 = mn1 XOR mx1
      in RL mn2 mx1)"

definition rl_addtofront :: "RangeList \<Rightarrow> ll \<Rightarrow> ll \<Rightarrow> RangeList" where
  "rl_addtofront l mn mx =
     (if sint mn > sint mx then xor_swap (RL mn mx) # l else RL mn mx # l)"

fun rl_dup :: "RangeList \<Rightarrow> RangeList" where
  "rl_dup [] = []"
| "rl_dup (r # l) = RL (min_of r) (max_of r) # rl_dup l"

fun rl_min_loop :: "RangeList \<Rightarrow> ll \<Rightarrow> bool \<Rightarrow> ll" where
  "rl_min_loop [] v first = v"
| "rl_min_loop (r # l) v first =
     (if first \<or> sint v > sint (min_of r) then rl_min_loop l (min_of r) False
      else rl_min_loop l v first)"

definition rl_min :: "RangeList \<Rightarrow> ll" where
  "rl_min l = rl_min_loop l 0 True"

fun rl_max_loop :: "RangeList \<Rightarrow> ll \<Rightarrow> bool \<Rightarrow> ll" where
  "rl_max_loop [] v first = v"
| "rl_max_loop (r # l) v first =
     (if first \<or> sint v < sint (max_of r) then rl_max_loop l (max_of r) False
      else rl_max_loop l v first)"

definition rl_max :: "RangeList \<Rightarrow> ll" where
  "rl_max l = rl_max_loop l 0 True"

fun rl_width_loop :: "RangeList \<Rightarrow> ll \<Rightarrow> ll" where
  "rl_width_loop [] v = v"
| "rl_width_loop (r # l) v = rl_width_loop l (v + (max_of r - min_of r) + 1)"

definition rl_width :: "RangeList \<Rightarrow> ll" where
  "rl_width l = rl_width_loop l 0"

fun rl_contains :: "RangeList \<Rightarrow> ll \<Rightarrow> bool" where
  "rl_contains [] v = False"
| "rl_contains (r # l) v =
     (if sint v \<ge> sint (min_of r) \<and> sint v \<le> sint (max_of r) then True else rl_contains l v)"

text \<open>
  \<open>rl_tostring\<close>: the first loop of the source only sizes the buffer; the second writes
  \<open>min\<close>, then a dash and \<open>max\<close> when they differ, then a comma when a node follows.
\<close>

fun rl_tostring :: "RangeList \<Rightarrow> string" where
  "rl_tostring [] = []"
| "rl_tostring (r # l) =
     fmt_lld (min_of r)
     @ (if min_of r \<noteq> max_of r then CHR ''-'' # fmt_lld (max_of r) else [])
     @ (if l \<noteq> [] then [CHR '',''] else [])
     @ rl_tostring l"

datatype Token = NUMBER | COMMA | DASH | ERROR | EOL

text \<open>The inner loop over a run of digits: \<open>v = (v*10) + (*s-'0')\<close>, from \<open>v = 0\<close>.\<close>

definition rl_digits :: "string \<Rightarrow> ll" where
  "rl_digits ds = foldl (\<lambda>v c. (v * 10) + (of_nat (of_char c) - 48)) 0 ds"

text \<open>
  The nodes allocated so far form a chain that starts at the caller's \<open>*rl\<close>. The pointer
  \<open>l\<close> of the source is either null or points to the node allocated last, the tail of the
  chain, which \<open>case NUMBER\<close> may still write to. The model keeps the nodes that \<open>l\<close> does not
  point to in \<open>out\<close> and the node it points to, if any, in \<open>l\<close>.
\<close>

definition rl_chain :: "RangeList \<Rightarrow> rl_node option \<Rightarrow> RangeList" where
  "rl_chain out l = out @ (case l of None \<Rightarrow> [] | Some r \<Rightarrow> [r])"

definition rl_close :: "rl_node \<Rightarrow> ll \<Rightarrow> rl_node" where
  "rl_close r v =
     (let r1 = RL (min_of r) v
      in if sint (min_of r1) > sint (max_of r1) then xor_swap r1 else r1)"

text \<open>
  The scanning loop. The result is the return code together with the chain built when the
  loop is left. The character that follows a run of digits is looked at again by the next
  iteration (the source backs up by one).
\<close>

function rl_scan :: "Token \<Rightarrow> RangeList \<Rightarrow> rl_node option \<Rightarrow> string \<Rightarrow> int \<times> RangeList" where
  "rl_scan last_tok out l [] =
     (if last_tok \<noteq> NUMBER then (- 1, rl_chain out l) else (0, rl_chain out l))"
| "rl_scan last_tok out l (c # cs) =
     (if isspace c then rl_scan last_tok out l cs
      else if isdigit c then
        (let v = rl_digits (c # takeWhile isdigit cs);
             rest = dropWhile isdigit cs
         in if last_tok = DASH then
              (case l of
                 Some r \<Rightarrow> rl_scan NUMBER (out @ [rl_close r v]) None rest
               | None \<Rightarrow> (- 1, rl_chain out l))
            else rl_scan NUMBER (rl_chain out l) (Some (RL v v)) rest)
      else if c = CHR '','' then rl_scan COMMA (rl_chain out l) None cs
      else if c = CHR ''-'' then rl_scan DASH out l cs
      else if c = CHR 0x00 then rl_scan EOL out l cs
      else (- 1, rl_chain out l))"
  by pat_completeness auto
termination
  by (relation "measure (\<lambda>(t, out, l, s). length s)")
     (auto simp: less_Suc_eq_le length_dropWhile_le)

text \<open>
  \<open>rl_fromstring rl0 s\<close>: \<open>rl0\<close> is what the caller's \<open>*rl\<close> holds before the call; the
  result is the return code and what \<open>*rl\<close> holds afterwards. \<open>*rl\<close> is assigned when the
  string is empty, when it is the wildcard, and when the first node is allocated.
\<close>

definition rl_fromstring :: "RangeList \<Rightarrow> string \<Rightarrow> int \<times> RangeList" where
  "rl_fromstring rl0 s =
     (if s = [] then (0, [])
      else if s = ''*'' then (0, [RL 0 0x7FFFFFFF])
      else (case rl_scan NUMBER [] None s of
              (rc, ch) \<Rightarrow> (rc, if ch = [] then rl0 else ch)))"


text \<open>Predicates on range lists used to state the properties below.\<close>

definition rl_canonical :: "RangeList \<Rightarrow> bool" where
  "rl_canonical r = list_all (\<lambda>e. sint (min_of e) \<le> sint (max_of e)) r"

fun rl_disjoint :: "RangeList \<Rightarrow> bool" where
  "rl_disjoint [] = True"
| "rl_disjoint (e # es) =
     (list_all (\<lambda>f. sint (max_of e) < sint (min_of f) \<or> sint (max_of f) < sint (min_of e)) es
      \<and> rl_disjoint es)"

definition rl_printable :: "RangeList \<Rightarrow> bool" where
  "rl_printable r = list_all (\<lambda>e. 0 \<le> sint (min_of e) \<and> sint (min_of e) \<le> sint (max_of e)) r"

section \<open>StringList (stringlist.c) and the C library's number parsing\<close>

text \<open>
  A \<open>StringList\<close> holds \<open>n\<close> pointers, each a string or null (an empty column is stored
  as a null pointer).
\<close>

type_synonym StringList = "string option list"

text \<open>
  \<open>sl_read\<close> for one line of the file, given without its newline: a delimiter ends a
  column, an empty column is appended as a null pointer.
\<close>

fun sl_read_loop :: "char \<Rightarrow> string \<Rightarrow> string option \<Rightarrow> StringList" where
  "sl_read_loop delimiter [] p = [p]"
| "sl_read_loop delimiter (c # b) p =
     (if c = delimiter then p # sl_read_loop delimiter b None
      else sl_read_loop delimiter b (Some (case p of None \<Rightarrow> [c] | Some q \<Rightarrow> q @ [c])))"

definition sl_read :: "string \<Rightarrow> char \<Rightarrow> StringList" where
  "sl_read line delimiter = sl_read_loop delimiter line None"

definition sl_value :: "StringList \<Rightarrow> int \<Rightarrow> string" where
  "sl_value sl n =
     (if n < 0 \<or> n \<ge> int (length sl) \<or> sl ! nat n = None then []
      else the (sl ! nat n))"

text \<open>
  The C library's \<open>strtol\<close> in base 10: leading white space is skipped, an optional sign
  is read, then the longest run of digits; with no digit the value is 0. \<open>strtol10\<close> is
  the number that is written. \<open>strtol\<close> returns it as a \<open>long\<close> of 64 bits, and returns
  \<open>LONG_MIN\<close> or \<open>LONG_MAX\<close> for a number outside the range of a \<open>long\<close>; \<open>strtoll\<close> is
  the same function for \<open>long long\<close>. \<open>atoi (s)\<close> is \<open>(int) strtol (s, NULL, 10)\<close>, the low
  32 bits of that \<open>long\<close>, and \<open>atoll (s)\<close> is \<open>strtoll (s, NULL, 10)\<close>.
\<close>

definition strtol10 :: "string \<Rightarrow> int" where
  "strtol10 s =
     (let s1 = dropWhile isspace s;
          neg = (s1 \<noteq> [] \<and> hd s1 = CHR ''-'');
          s2 = (if s1 \<noteq> [] \<and> (hd s1 = CHR ''-'' \<or> hd s1 = CHR ''+'') then tl s1 else s1);
          n = foldl (\<lambda>v c. v * 10 + (int (of_char c) - 48)) 0 (takeWhile isdigit s2)
      in if neg then - n else n)"

definition LONG_MIN :: int where "LONG_MIN = - 9223372036854775808"

definition LONG_MAX :: int where "LONG_MAX = 9223372036854775807"

definition strtol :: "string \<Rightarrow> 64 word" where
  "strtol s =
     (let n = strtol10 s
      in if n < LONG_MIN then word_of_int LONG_MIN
         else if n > LONG_MAX then word_of_int LONG_MAX
         else word_of_int n)"

definition atoi :: "string \<Rightarrow> 32 word" where
  "atoi s = ucast (strtol s)"

definition atoll :: "string \<Rightarrow> 64 word" where
  "atoll s = strtol s"

section \<open>Data model (esig.h, exclusions.h)\<close>

definition AUDITREC_DATE :: int where "AUDITREC_DATE = 1"
definition AUDITREC_TIME :: int where "AUDITREC_TIME = 2"
definition AUDITREC_USER :: int where "AUDITREC_USER = 3"
definition AUDITREC_PID :: int where "AUDITREC_PID = 4"
definition AUDITREC_VISIT :: int where "AUDITREC_VISIT = 5"
definition AUDITREC_PLATE :: int where "AUDITREC_PLATE = 6"
definition AUDITREC_FIELDREF :: int where "AUDITREC_FIELDREF = 7"
definition AUDITREC_STATUS :: int where "AUDITREC_STATUS = 9"
definition AUDITREC_LEVEL :: int where "AUDITREC_LEVEL = 10"
definition AUDITREC_OLDVALUE :: int where "AUDITREC_OLDVALUE = 14"
definition AUDITREC_NEWVALUE :: int where "AUDITREC_NEWVALUE = 15"
definition AUDITREC_FIELDPOS :: int where "AUDITREC_FIELDPOS = 16"
definition AUDITREC_FIELDDESC :: int where "AUDITREC_FIELDDESC = 17"
definition AUDITREC_OLDDECODE :: int where "AUDITREC_OLDDECODE = 18"
definition AUDITREC_NEWDECODE :: int where "AUDITREC_NEWDECODE = 19"

lemmas AUDITREC_defs =
  AUDITREC_DATE_def AUDITREC_TIME_def AUDITREC_USER_def AUDITREC_PID_def AUDITREC_VISIT_def
  AUDITREC_PLATE_def AUDITREC_FIELDREF_def AUDITREC_STATUS_def AUDITREC_LEVEL_def
  AUDITREC_OLDVALUE_def AUDITREC_NEWVALUE_def AUDITREC_FIELDPOS_def AUDITREC_FIELDDESC_def
  AUDITREC_OLDDECODE_def AUDITREC_NEWDECODE_def

datatype signatureStatus = SIG_NONE | SIG_COMPLETE | SIG_INVALIDATED

datatype recStatus = RECORD_NORMAL | RECORD_ERROR | RECORD_LOST | RECORD_DELETED

datatype changeStatus = CHANGE_NONE | CHANGE_ACCEPTED | CHANGE_DECLINED | CHANGE_DECLINED_ATFINAL

text \<open>The enumerators' values, for the comparison \<open>>\<close> of change statuses.\<close>

fun change_value :: "changeStatus \<Rightarrow> nat" where
  "change_value CHANGE_NONE = 0"
| "change_value CHANGE_ACCEPTED = 1"
| "change_value CHANGE_DECLINED = 2"
| "change_value CHANGE_DECLINED_ATFINAL = 3"

record Status =
  signatureStatus :: signatureStatus
  recStatus :: recStatus
  changeStatus :: changeStatus

record eSigConfig =
  esc_plate :: Plate
  esc_ignore_fields :: RangeList
  esc_visits :: RangeList
  esc_sig_plate :: Plate
  esc_n_sig_fields :: "32 word"
  esc_sig_fields :: RangeList
  esc_name :: "string option"
  esc_serial :: "32 word"

record FieldChange =
  fc_field :: Field
  fc_status :: Status
  fc_desc :: "string option"
  fc_old_value :: "string option"
  fc_new_value :: "string option"
  fc_who :: "string option"
  fc_date :: "string option"
  fc_time :: "string option"
  fc_comment :: "string option"

record CoveredPlate =
  cp_plate :: Plate
  cp_status :: Status
  cp_is_final :: bool
  cp_field_change_count :: "32 word"
  cp_changes :: "FieldChange list"

record eSigField =
  sf_field :: Field
  sf_completed :: bool
  sf_desc :: "string option"
  sf_value :: "string option"

record eSigNode =
  esn_id :: Patient
  esn_visit :: Visit
  esn_config :: eSigConfig
  esn_status :: Status
  esn_signer :: "string option"
  esn_date :: "string option"
  esn_time :: "string option"
  esn_plates :: "CoveredPlate list"
  esn_sig_fields :: "eSigField list"
  esn_flags :: "32 word"
  esn_txn_id :: TransactionID

record exclusion =
  ex_plate :: Plate
  ex_field :: Field
  ex_user :: string
  ex_date :: string

section \<open>The red-black trees of tree.h as ordered lists\<close>

text \<open>
  A tree is modelled by the list of its elements in the order of its comparison function,
  which is the order \<open>RB_FOREACH\<close> visits them in. \<open>RB_INSERT\<close> returns the element already
  in the tree that compares equal, leaving the tree as it is, or inserts the new element and
  returns null. The source then writes through the pointer to the element in the tree;
  \<open>rb_update\<close> stores the written element back in its place.
\<close>

fun rb_insert :: "('a \<Rightarrow> 'a \<Rightarrow> int) \<Rightarrow> 'a \<Rightarrow> 'a list \<Rightarrow> 'a option \<times> 'a list" where
  "rb_insert cmp x [] = (None, [x])"
| "rb_insert cmp x (y # ys) =
     (if cmp x y < 0 then (None, x # y # ys)
      else if cmp x y > 0 then (case rb_insert cmp x ys of (r, zs) \<Rightarrow> (r, y # zs))
      else (Some y, y # ys))"

fun rb_update :: "('a \<Rightarrow> 'a \<Rightarrow> int) \<Rightarrow> 'a \<Rightarrow> 'a list \<Rightarrow> 'a list" where
  "rb_update cmp x [] = []"
| "rb_update cmp x (y # ys) = (if cmp x y = 0 then x # ys else y # rb_update cmp x ys)"


section \<open>The signature state engine (esig.c)\<close>

definition fc_compare :: "FieldChange \<Rightarrow> FieldChange \<Rightarrow> int" where
  "fc_compare a b =
     (if sint (fc_field a) < sint (fc_field b) then - 1
      else if sint (fc_field a) > sint (fc_field b) then 1
      else 0)"

definition cp_compare :: "CoveredPlate \<Rightarrow> CoveredPlate \<Rightarrow> int" where
  "cp_compare a b =
     (if cp_plate a < cp_plate b then - 1
      else if cp_plate a > cp_plate b then 1
      else 0)"

text \<open>The first signature field is stored in an \<open>int\<close>: the 64-bit minimum is truncated.\<close>

definition esn_compare :: "eSigNode \<Rightarrow> eSigNode \<Rightarrow> int" where
  "esn_compare a b =
     (let a_field_low = (ucast (rl_min (esc_sig_fields (esn_config a))) :: 32 word);
          b_field_low = (ucast (rl_min (esc_sig_fields (esn_config b))) :: 32 word)
      in if esn_id a < esn_id b then - 1
         else if esn_id a > esn_id b then 1
         else if esn_visit a < esn_visit b then - 1
         else if esn_visit a > esn_visit b then 1
         else if esc_sig_plate (esn_config a) < esc_sig_plate (esn_config b) then - 1
         else if esc_sig_plate (esn_config a) > esc_sig_plate (esn_config b) then 1
         else if sint a_field_low < sint b_field_low then - 1
         else if sint a_field_low > sint b_field_low then 1
         else 0)"

text \<open>\<open>esc_alloc\<close>: a zeroed record with the next serial number (a static counter).\<close>

definition esc_alloc :: "32 word \<Rightarrow> eSigConfig" where
  "esc_alloc serial =
     \<lparr>esc_plate = 0, esc_ignore_fields = [], esc_visits = [], esc_sig_plate = 0,
      esc_n_sig_fields = 0, esc_sig_fields = [], esc_name = None, esc_serial = serial\<rparr>"

definition fc_alloc :: "Field \<Rightarrow> FieldChange" where
  "fc_alloc field =
     \<lparr>fc_field = field,
      fc_status = \<lparr>signatureStatus = SIG_NONE, recStatus = RECORD_NORMAL,
                   changeStatus = CHANGE_ACCEPTED\<rparr>,
      fc_desc = None, fc_old_value = None, fc_new_value = None, fc_who = None,
      fc_date = None, fc_time = None, fc_comment = None\<rparr>"

definition cp_alloc :: "Plate \<Rightarrow> CoveredPlate" where
  "cp_alloc plate =
     \<lparr>cp_plate = plate,
      cp_status = \<lparr>signatureStatus = SIG_NONE, recStatus = RECORD_NORMAL,
                   changeStatus = CHANGE_NONE\<rparr>,
      cp_is_final = False, cp_field_change_count = 0, cp_changes = []\<rparr>"

definition cp_free_changes :: "CoveredPlate \<Rightarrow> CoveredPlate" where
  "cp_free_changes n = n\<lparr>cp_changes := []\<rparr>"

definition esn_alloc :: "Patient \<Rightarrow> Visit \<Rightarrow> eSigConfig \<Rightarrow> eSigNode" where
  "esn_alloc pid visit config =
     \<lparr>esn_id = pid, esn_visit = visit, esn_config = config,
      esn_status = \<lparr>signatureStatus = SIG_NONE, recStatus = RECORD_NORMAL,
                    changeStatus = CHANGE_NONE\<rparr>,
      esn_signer = None, esn_date = None, esn_time = None, esn_plates = [],
      esn_sig_fields = [], esn_flags = 0, esn_txn_id = 0\<rparr>"

definition esn_sig_rec_seen :: "eSigNode \<Rightarrow> eSigNode" where
  "esn_sig_rec_seen n = n\<lparr>esn_flags := esn_flags n OR 1\<rparr>"

definition esn_was_sig_rec_seen :: "eSigNode \<Rightarrow> bool" where
  "esn_was_sig_rec_seen n = (esn_flags n AND 1 \<noteq> 0)"

text \<open>
  \<open>esn_alloc_sigfields\<close> allocates a zeroed array of \<open>n_sig_fields\<close> slots and fills
  one slot for every value \<open>v\<close> of every range, in the order of the list. The loop variable
  is an \<open>int\<close> that starts at the truncated minimum and is compared with the 64-bit
  maximum. The array is the list of the slots written, followed by the zeroed slots that
  remain when fewer than \<open>n_sig_fields\<close> are written; a null array is the empty list.
\<close>

definition sigfield_slot :: "int \<Rightarrow> eSigField" where
  "sigfield_slot v = \<lparr>sf_field = word_of_int v, sf_completed = False, sf_desc = None, sf_value = None\<rparr>"

definition sigfield_zeroed :: eSigField where
  "sigfield_zeroed = \<lparr>sf_field = 0, sf_completed = False, sf_desc = None, sf_value = None\<rparr>"

fun sigfield_slots :: "RangeList \<Rightarrow> eSigField list" where
  "sigfield_slots [] = []"
| "sigfield_slots (rl # rest) =
     map sigfield_slot [sint (ucast (min_of rl) :: 32 word) .. sint (max_of rl)] @ sigfield_slots rest"

definition esn_alloc_sigfields :: "eSigNode \<Rightarrow> eSigNode" where
  "esn_alloc_sigfields n =
     (if esn_sig_fields n \<noteq> [] then n
      else n\<lparr>esn_sig_fields :=
               sigfield_slots (esc_sig_fields (esn_config n))
               @ replicate
                   (nat (sint (esc_n_sig_fields (esn_config n)))
                      - length (sigfield_slots (esc_sig_fields (esn_config n))))
                   sigfield_zeroed\<rparr>)"

definition decode_value :: "StringList \<Rightarrow> int \<Rightarrow> int \<Rightarrow> string" where
  "decode_value sl valuepos decodepos =
     (let val = sl_value sl valuepos; decode = sl_value sl decodepos
      in if decode \<noteq> [] then val @ ''='' @ decode else val)"

definition esn_free_signed_values :: "eSigNode \<Rightarrow> TransactionID \<Rightarrow> eSigNode" where
  "esn_free_signed_values n txn_id =
     (if esn_txn_id n \<noteq> txn_id then n
      else n\<lparr>esn_plates :=
             map (\<lambda>cp. (cp_free_changes cp)
                    \<lparr>cp_status := (cp_status cp)\<lparr>recStatus := RECORD_NORMAL,
                                                 changeStatus := CHANGE_NONE\<rparr>\<rparr>)
                 (esn_plates n)\<rparr>)"

text \<open>The loop of \<open>esn_sign\<close> over the array: mark the matching slots, count the completed ones.\<close>

fun esn_sign_loop :: "StringList \<Rightarrow> Field \<Rightarrow> eSigField list \<Rightarrow> 32 word \<Rightarrow> eSigField list \<times> 32 word" where
  "esn_sign_loop sl field [] completed = ([], completed)"
| "esn_sign_loop sl field (f # fs) completed =
     (let f1 = (if sf_field f = field
                then f\<lparr>sf_completed := True,
                       sf_desc := Some (sl_value sl AUDITREC_FIELDDESC),
                       sf_value := Some (sl_value sl AUDITREC_NEWVALUE)\<rparr>
                else f);
          completed1 = (if sf_completed f1 then completed + 1 else completed)
      in case esn_sign_loop sl field fs completed1 of (fs1, c) \<Rightarrow> (f1 # fs1, c))"

definition esn_sign :: "eSigNode \<Rightarrow> StringList \<Rightarrow> Field \<Rightarrow> TransactionID \<Rightarrow> eSigNode" where
  "esn_sign n sl field txn_id =
     (case esn_sign_loop sl field (esn_sig_fields n) 0 of
        (fs, completed) \<Rightarrow>
          (let n1 = n\<lparr>esn_sig_fields := fs\<rparr>
           in if completed \<noteq> esc_n_sig_fields (esn_config n) then n1
              else n1\<lparr>esn_status := (esn_status n1)\<lparr>signatureStatus := SIG_COMPLETE\<rparr>,
                      esn_txn_id := txn_id,
                      esn_signer := Some (sl_value sl AUDITREC_USER),
                      esn_date := Some (sl_value sl AUDITREC_DATE),
                      esn_time := Some (sl_value sl AUDITREC_TIME)\<rparr>))"

fun esn_unsign_loop :: "Field \<Rightarrow> eSigField list \<Rightarrow> eSigField list" where
  "esn_unsign_loop field [] = []"
| "esn_unsign_loop field (f # fs) =
     (if sf_field f = field then f\<lparr>sf_completed := False, sf_value := Some []\<rparr> else f)
     # esn_unsign_loop field fs"

definition esn_unsign :: "eSigNode \<Rightarrow> Field \<Rightarrow> eSigNode" where
  "esn_unsign n field =
     (let n1 = n\<lparr>esn_sig_fields := esn_unsign_loop field (esn_sig_fields n)\<rparr>;
          n2 = (if signatureStatus (esn_status n1) = SIG_COMPLETE
                then n1\<lparr>esn_status := (esn_status n1)\<lparr>signatureStatus := SIG_INVALIDATED\<rparr>\<rparr>
                else n1)
      in n2\<lparr>esn_txn_id := 0\<rparr>)"

text \<open>\<open>is_excluded\<close> (exclusions.c) over the list of exclusions loaded at start.\<close>

definition is_excluded :: "exclusion list \<Rightarrow> StringList \<Rightarrow> bool" where
  "is_excluded exclusions sl =
     (let user = sl_value sl AUDITREC_USER;
          date = sl_value sl AUDITREC_DATE;
          orig_value = sl_value sl AUDITREC_OLDVALUE;
          plate = atoi (sl_value sl AUDITREC_PLATE);
          field = atoi (sl_value sl AUDITREC_FIELDPOS)
      in list_ex (\<lambda>e. ex_plate e = plate \<and> ex_field e = field \<and> ex_user e = user
                       \<and> ex_date e = date \<and> orig_value = []) exclusions)"

text \<open>
  \<open>esn_datachange\<close>: \<open>cp\<close> is the covered plate in the tree (found or inserted); the three
  record states are applied in the order of the source; every return leaves the written
  plate in the tree.
\<close>

definition cp_record_state :: "eSigNode \<Rightarrow> 32 word \<Rightarrow> 32 word \<Rightarrow> CoveredPlate \<Rightarrow> CoveredPlate" where
  "cp_record_state n rec_status rec_level cp =
     (let declined = (\<lambda>c. if signatureStatus (esn_status n) \<noteq> SIG_NONE
                           then c\<lparr>cp_status := (cp_status c)\<lparr>changeStatus := CHANGE_DECLINED\<rparr>\<rparr>
                           else c);
          cp1 = cp\<lparr>cp_status := (cp_status cp)\<lparr>recStatus := RECORD_NORMAL\<rparr>\<rparr>;
          cp2 = cp1\<lparr>cp_is_final := (rec_status = 0 \<or> rec_status = 1)\<rparr>;
          cp3 = (if rec_status = 3 \<and> rec_level = 7
                 then (declined cp2)\<lparr>cp_status := (cp_status (declined cp2))\<lparr>recStatus := RECORD_ERROR\<rparr>\<rparr>
                 else cp2);
          cp4 = (if rec_status = 7
                 then cp_free_changes
                        ((declined cp3)\<lparr>cp_status := (cp_status (declined cp3))\<lparr>recStatus := RECORD_DELETED\<rparr>\<rparr>)
                 else cp3);
          cp5 = (if rec_status = 0
                 then cp_free_changes
                        ((declined cp4)\<lparr>cp_status := (cp_status (declined cp4))\<lparr>recStatus := RECORD_LOST\<rparr>\<rparr>)
                 else cp4)
      in cp5)"

definition fc_record_change :: "exclusion list \<Rightarrow> StringList \<Rightarrow> Field \<Rightarrow> FieldChange list \<Rightarrow> FieldChange list" where
  "fc_record_change exclusions sl field changes =
     (case rb_insert fc_compare (fc_alloc field) changes of
        (fc0, changes1) \<Rightarrow>
          (let fc1 = (case fc0 of
                        Some f \<Rightarrow> f
                      | None \<Rightarrow> (fc_alloc field)
                          \<lparr>fc_old_value := Some (decode_value sl AUDITREC_OLDVALUE AUDITREC_OLDDECODE)\<rparr>);
               fc2 = fc1\<lparr>fc_who := Some (sl_value sl AUDITREC_USER),
                         fc_date := Some (sl_value sl AUDITREC_DATE),
                         fc_time := Some (sl_value sl AUDITREC_TIME),
                         fc_desc := Some (sl_value sl AUDITREC_FIELDDESC),
                         fc_new_value := Some (decode_value sl AUDITREC_NEWVALUE AUDITREC_NEWDECODE)\<rparr>;
               fc3 = (if fc0 = None \<and> is_excluded exclusions sl
                      then fc2\<lparr>fc_comment := Some ''Administratively exempted'',
                               fc_status := (fc_status fc2)\<lparr>changeStatus := CHANGE_ACCEPTED\<rparr>\<rparr>
                      else fc2\<lparr>fc_comment := None,
                               fc_status := (fc_status fc2)\<lparr>changeStatus := CHANGE_DECLINED\<rparr>\<rparr>)
           in rb_update fc_compare fc3 changes1))"

definition esn_datachange ::
    "exclusion list \<Rightarrow> eSigNode \<Rightarrow> StringList \<Rightarrow> Plate \<Rightarrow> Field \<Rightarrow> TransactionID \<Rightarrow> eSigNode" where
  "esn_datachange exclusions n sl plate field txn_id =
     (case rb_insert cp_compare (cp_alloc plate) (esn_plates n) of
        (cp0, plates1) \<Rightarrow>
          (let cp = (case cp0 of Some c \<Rightarrow> c | None \<Rightarrow> cp_alloc plate);
               rec_status = atoi (sl_value sl AUDITREC_STATUS);
               rec_level = atoi (sl_value sl AUDITREC_LEVEL);
               cp5 = cp_record_state n rec_status rec_level cp
           in if txn_id = esn_txn_id n then n\<lparr>esn_plates := rb_update cp_compare cp5 plates1\<rparr>
              else if sint field < 7 then n\<lparr>esn_plates := rb_update cp_compare cp5 plates1\<rparr>
              else n\<lparr>esn_plates :=
                     rb_update cp_compare
                       (cp5\<lparr>cp_changes := fc_record_change exclusions sl field (cp_changes cp5)\<rparr>)
                       plates1\<rparr>))"


text \<open>
  \<open>evaluate_tree\<close>: the three nested \<open>RB_FOREACH\<close> loops. The innermost loop writes the
  field change and the plate it belongs to, the middle loop the plate and the node.
\<close>

fun evaluate_changes ::
    "bool \<Rightarrow> bool \<Rightarrow> string option \<Rightarrow> CoveredPlate \<Rightarrow> FieldChange list
       \<Rightarrow> CoveredPlate \<times> FieldChange list" where
  "evaluate_changes allow_signer_changes resign_at_final signer cp [] = (cp, [])"
| "evaluate_changes allow_signer_changes resign_at_final signer cp (fc # fcs) =
     (let cp1 = cp\<lparr>cp_field_change_count := cp_field_change_count cp + 1\<rparr>;
          fc1 = (if resign_at_final \<and> \<not> cp_is_final cp1
                    \<and> changeStatus (fc_status fc) = CHANGE_DECLINED
                 then fc\<lparr>fc_status := (fc_status fc)\<lparr>changeStatus := CHANGE_DECLINED_ATFINAL\<rparr>\<rparr>
                 else fc);
          fc2 = fc1\<lparr>fc_status := (fc_status fc1)
                       \<lparr>recStatus := recStatus (cp_status cp1),
                        signatureStatus := signatureStatus (cp_status cp1)\<rparr>\<rparr>;
          fc3 = (if allow_signer_changes \<and> fc_who fc2 \<noteq> None \<and> signer \<noteq> None
                    \<and> fc_who fc2 = signer
                 then fc2\<lparr>fc_comment := Some ''Changed by Signer'',
                          fc_status := (fc_status fc2)\<lparr>changeStatus := CHANGE_ACCEPTED\<rparr>\<rparr>
                 else fc2);
          cp2 = (if change_value (changeStatus (fc_status fc3))
                      > change_value (changeStatus (cp_status cp1))
                 then cp1\<lparr>cp_status := (cp_status cp1)
                            \<lparr>changeStatus := changeStatus (fc_status fc3)\<rparr>\<rparr>
                 else cp1)
      in case evaluate_changes allow_signer_changes resign_at_final signer cp2 fcs of
           (cp3, fcs1) \<Rightarrow> (cp3, fc3 # fcs1))"

fun evaluate_plates ::
    "bool \<Rightarrow> bool \<Rightarrow> eSigNode \<Rightarrow> CoveredPlate list \<Rightarrow> eSigNode \<times> CoveredPlate list" where
  "evaluate_plates allow_signer_changes resign_at_final esn [] = (esn, [])"
| "evaluate_plates allow_signer_changes resign_at_final esn (cp # cps) =
     (let cp1 = cp\<lparr>cp_status := (cp_status cp)
                      \<lparr>signatureStatus := signatureStatus (esn_status esn)\<rparr>,
                   cp_field_change_count := 0\<rparr>
      in case evaluate_changes allow_signer_changes resign_at_final (esn_signer esn) cp1
                (cp_changes cp1) of
           (cp2, fcs) \<Rightarrow>
             (let cp3 = cp2\<lparr>cp_changes := fcs\<rparr>;
                  esn1 = (if esc_sig_plate (esn_config esn) = cp_plate cp3
                          then esn\<lparr>esn_status := (esn_status esn)
                                     \<lparr>recStatus := recStatus (cp_status cp3)\<rparr>\<rparr>
                          else esn);
                  esn2 = (if change_value (changeStatus (cp_status cp3))
                               > change_value (changeStatus (esn_status esn1))
                          then esn1\<lparr>esn_status := (esn_status esn1)
                                      \<lparr>changeStatus := changeStatus (cp_status cp3)\<rparr>\<rparr>
                          else esn1)
              in case evaluate_plates allow_signer_changes resign_at_final esn2 cps of
                   (esn3, cps1) \<Rightarrow> (esn3, cp3 # cps1)))"

definition evaluate_node :: "bool \<Rightarrow> bool \<Rightarrow> eSigNode \<Rightarrow> eSigNode" where
  "evaluate_node allow_signer_changes resign_at_final esn =
     (let esn1 = esn\<lparr>esn_status := (esn_status esn)\<lparr>changeStatus := CHANGE_NONE\<rparr>\<rparr>
      in case evaluate_plates allow_signer_changes resign_at_final esn1 (esn_plates esn1) of
           (esn2, cps) \<Rightarrow> esn2\<lparr>esn_plates := cps\<rparr>)"

definition evaluate_tree :: "eSigNode list \<Rightarrow> bool \<Rightarrow> bool \<Rightarrow> eSigNode list" where
  "evaluate_tree tree allow_signer_changes resign_at_final =
     map (evaluate_node allow_signer_changes resign_at_final) tree"

section \<open>The actions of the configuration grammar (grammar.y)\<close>

text \<open>
  The values of the grammar's symbols: a \<open>number\<close> is an \<open>int\<close>, a range a \<open>RangeList\<close>, a
  configuration a list of records chained by \<open>next\<close>. Each definition is the action of the
  production named in its comment.
\<close>

definition range_element_pair :: "32 word \<Rightarrow> 32 word \<Rightarrow> RangeList" where
  \<comment> \<open>\<open>range_element : number '-' number\<close>\<close>
  "range_element_pair n1 n3 = rl_addtofront [] (scast n1) (scast n3)"

definition range_element_single :: "32 word \<Rightarrow> RangeList" where
  \<comment> \<open>\<open>range_element : number\<close>\<close>
  "range_element_single n1 = rl_addtofront [] (scast n1) (scast n1)"

definition range_more :: "RangeList \<Rightarrow> RangeList \<Rightarrow> RangeList" where
  \<comment> \<open>\<open>range : range ',' range_element\<close>: the new element becomes the head\<close>
  "range_more r1 r3 = r3 @ r1"

definition visit_range_wildcard :: RangeList where
  \<comment> \<open>\<open>visit_range : '*'\<close>\<close>
  "visit_range_wildcard = rl_addtofront [] 0 65535"

definition plate_defn :: "32 word \<Rightarrow> 32 word \<Rightarrow> RangeList \<Rightarrow> eSigConfig" where
  \<comment> \<open>\<open>plate_defn : TOK_PLATE number ignore_fields ';'\<close>\<close>
  "plate_defn serial n2 ignore = (esc_alloc serial)\<lparr>esc_plate := n2, esc_ignore_fields := ignore\<rparr>"

definition plate_config_more :: "eSigConfig list \<Rightarrow> eSigConfig \<Rightarrow> eSigConfig list" where
  \<comment> \<open>\<open>plate_config : plate_config plate_defn\<close>: the new record becomes the head\<close>
  "plate_config_more c1 c2 = c2 # c1"

definition sig_config :: "32 word \<Rightarrow> string \<Rightarrow> 32 word \<Rightarrow> RangeList \<Rightarrow> RangeList \<Rightarrow> eSigConfig" where
  \<comment> \<open>\<open>sig_config : TOK_SIGNATURE TOK_STRING TOK_PLATE number TOK_VISIT visit_range TOK_FIELDS range\<close>\<close>
  "sig_config serial s2 n4 r6 r8 =
     (esc_alloc serial)\<lparr>esc_name := Some s2, esc_sig_plate := n4, esc_visits := r6,
                         esc_sig_fields := r8, esc_n_sig_fields := ucast (rl_width r8)\<rparr>"

definition signature :: "eSigConfig \<Rightarrow> eSigConfig list \<Rightarrow> eSigConfig list" where
  \<comment> \<open>\<open>signature : sig_config '{' plate_config '}'\<close>\<close>
  "signature c1 c3 =
     map (\<lambda>e. e\<lparr>esc_name := esc_name c1, esc_sig_plate := esc_sig_plate c1,
                 esc_visits := rl_dup (esc_visits c1),
                 esc_sig_fields := rl_dup (esc_sig_fields c1),
                 esc_n_sig_fields := esc_n_sig_fields c1\<rparr>) c3"

definition config_more :: "eSigConfig list \<Rightarrow> eSigConfig list \<Rightarrow> eSigConfig list" where
  \<comment> \<open>\<open>config : config signature\<close>: the new records go to the end\<close>
  "config_more c1 c2 = c1 @ c2"

section \<open>Reading the audit trail and writing the DRF (main.c)\<close>

text \<open>
  The transaction key written by \<open>snprintf\<close> into a buffer of 128 bytes: at most 127
  characters are kept.
\<close>

definition txn_key :: "StringList \<Rightarrow> Patient \<Rightarrow> Visit \<Rightarrow> Plate \<Rightarrow> string" where
  "txn_key sl pid visit plate =
     take 127 (sl_value sl AUDITREC_DATE @ ''|'' @ sl_value sl AUDITREC_TIME @ ''|''
               @ sl_value sl AUDITREC_USER @ ''|'' @ fmt_lld pid @ ''|'' @ fmt_d visit
               @ ''|'' @ fmt_d plate)"

definition config_applies :: "eSigConfig \<Rightarrow> Plate \<Rightarrow> Visit \<Rightarrow> Field \<Rightarrow> bool" where
  "config_applies esc plate visit field =
     (\<not> (esc_plate esc \<noteq> plate
         \<or> \<not> rl_contains (esc_visits esc) (ucast visit)
         \<or> rl_contains (esc_ignore_fields esc) (scast field)))"

text \<open>
  The body of the loop over the configuration records, for one record: the node is found
  or inserted, then marked as seen and dispatched. The calls that write to the database
  read the node and do not change it.
\<close>

definition dispatch_event ::
    "exclusion list \<Rightarrow> StringList \<Rightarrow> Plate \<Rightarrow> Field \<Rightarrow> 32 word \<Rightarrow> TransactionID
       \<Rightarrow> eSigConfig \<Rightarrow> eSigNode \<Rightarrow> eSigNode" where
  "dispatch_event exclusions sl plate field rec_status txn_id esc esn =
     (let esn1 = (if plate = esc_sig_plate esc \<and> rec_status \<noteq> 0
                  then esn_sig_rec_seen esn else esn)
      in if plate = esc_sig_plate esc \<and> rl_contains (esc_sig_fields esc) (scast field)
         then (if sl_value sl AUDITREC_NEWVALUE \<noteq> []
               then esn_free_signed_values (esn_sign esn1 sl field txn_id) txn_id
               else esn_unsign esn1 field)
         else esn_datachange exclusions esn1 sl plate field txn_id)"

definition process_config ::
    "exclusion list \<Rightarrow> StringList \<Rightarrow> Patient \<Rightarrow> Visit \<Rightarrow> Plate \<Rightarrow> Field \<Rightarrow> 32 word
       \<Rightarrow> TransactionID \<Rightarrow> eSigNode list \<Rightarrow> eSigConfig \<Rightarrow> eSigNode list" where
  "process_config exclusions sl pid visit plate field rec_status txn_id tree esc =
     (if \<not> config_applies esc plate visit field then tree
      else
        (case rb_insert esn_compare (esn_alloc pid visit esc) tree of
           (esn0, tree1) \<Rightarrow>
             (let esn = (case esn0 of
                           Some e \<Rightarrow> e
                         | None \<Rightarrow> esn_alloc_sigfields (esn_alloc pid visit esc))
              in rb_update esn_compare
                   (dispatch_event exclusions sl plate field rec_status txn_id esc esn) tree1)))"

record input_state =
  in_txn_id :: TransactionID
  in_last_txn :: string
  in_tree :: "eSigNode list"


text \<open>One iteration of the loop of \<open>process_input\<close>, for the line read into \<open>sl\<close>.\<close>

definition process_line ::
    "exclusion list \<Rightarrow> eSigConfig list \<Rightarrow> input_state \<Rightarrow> StringList \<Rightarrow> input_state" where
  "process_line exclusions esc_config_head st sl =
     (if atoi (sl_value sl AUDITREC_FIELDREF) \<noteq> 0 then st
      else
        (let field = atoi (sl_value sl AUDITREC_FIELDPOS)
         in if sint field > 2 \<and> sint field \<le> 7 then st
            else
              (let rec_status = atoi (sl_value sl AUDITREC_STATUS);
                   pid = atoll (sl_value sl AUDITREC_PID);
                   visit = atoi (sl_value sl AUDITREC_VISIT);
                   plate = atoi (sl_value sl AUDITREC_PLATE);
                   txn = txn_key sl pid visit plate;
                   st1 = (if txn \<noteq> in_last_txn st
                          then st\<lparr>in_txn_id := in_txn_id st + 1, in_last_txn := txn\<rparr>
                          else st)
               in st1\<lparr>in_tree :=
                        foldl (process_config exclusions sl pid visit plate field rec_status
                                 (in_txn_id st1))
                          (in_tree st1) esc_config_head\<rparr>)))"

definition process_input ::
    "exclusion list \<Rightarrow> eSigConfig list \<Rightarrow> eSigNode list \<Rightarrow> StringList list \<Rightarrow> input_state" where
  "process_input exclusions esc_config_head tree lines =
     foldl (process_line exclusions esc_config_head)
       \<lparr>in_txn_id = 0, in_last_txn = [], in_tree = tree\<rparr> lines"







text \<open>
  \<open>write_drf\<close>: \<open>fopen_ok\<close> tells whether the output file could be opened; the result is the
  return code and the strings written to the file, one for each call of \<open>fprintf\<close>.
\<close>

fun write_drf_loop :: "eSigNode list \<Rightarrow> string list" where
  "write_drf_loop [] = []"
| "write_drf_loop (esn # tree) =
     (if signatureStatus (esn_status esn) = SIG_INVALIDATED
         \<or> (signatureStatus (esn_status esn) = SIG_COMPLETE
             \<and> recStatus (esn_status esn) = RECORD_NORMAL
             \<and> changeStatus (esn_status esn) = CHANGE_DECLINED)
      then (fmt_lld (esn_id esn) @ ''|'' @ fmt_d (esn_visit esn) @ ''|''
            @ fmt_d (esc_sig_plate (esn_config esn)) @ [CHR 0x0A])
           # write_drf_loop tree
      else write_drf_loop tree)"

definition write_drf :: "bool \<Rightarrow> eSigNode list \<Rightarrow> int \<times> string list" where
  "write_drf fopen_ok tree = (if \<not> fopen_ok then (- 1, []) else (0, write_drf_loop tree))"


section \<open>Notions used to state the properties\<close>

text \<open>The lines of an audit trail, each read by \<open>sl_read\<close> with the delimiter \<open>|\<close>.\<close>

definition audit_lines :: "string list \<Rightarrow> StringList list" where
  "audit_lines ls = map (\<lambda>l. sl_read l CHR ''|'') ls"






text \<open>
  A well-formed range string, given by its parts. An element is a run of digits, or two
  runs of digits with a dash between them; white space may stand before and after every run
  of digits; the elements are separated by commas. The node an element stands for has the
  value of the run as both bounds, or the values of the two runs as bounds, the smaller one
  first (values as 64-bit numbers).
\<close>

datatype range_text =
    Number_text string string string
  | Range_text string string string string string string

fun range_text_string :: "range_text \<Rightarrow> string" where
  "range_text_string (Number_text w1 ds w2) = w1 @ ds @ w2"
| "range_text_string (Range_text w1 ds1 w2 w3 ds2 w4) = w1 @ ds1 @ w2 @ ''-'' @ w3 @ ds2 @ w4"

definition digit_run :: "string \<Rightarrow> bool" where
  "digit_run ds = (ds \<noteq> [] \<and> list_all isdigit ds)"

definition white_space :: "string \<Rightarrow> bool" where
  "white_space ws = list_all isspace ws"

fun range_text_ok :: "range_text \<Rightarrow> bool" where
  "range_text_ok (Number_text w1 ds w2) = (white_space w1 \<and> digit_run ds \<and> white_space w2)"
| "range_text_ok (Range_text w1 ds1 w2 w3 ds2 w4) =
     (white_space w1 \<and> digit_run ds1 \<and> white_space w2 \<and> white_space w3 \<and> digit_run ds2
      \<and> white_space w4)"

definition digits_value :: "string \<Rightarrow> nat" where
  "digits_value ds = foldl (\<lambda>v c. v * 10 + (of_char c - 48)) 0 ds"

fun range_text_node :: "range_text \<Rightarrow> rl_node" where
  "range_text_node (Number_text w1 ds w2) = RL (of_nat (digits_value ds)) (of_nat (digits_value ds))"
| "range_text_node (Range_text w1 ds1 w2 w3 ds2 w4) =
     (if sint (of_nat (digits_value ds1) :: 64 word) \<le> sint (of_nat (digits_value ds2) :: 64 word)
      then RL (of_nat (digits_value ds1)) (of_nat (digits_value ds2))
      else RL (of_nat (digits_value ds2)) (of_nat (digits_value ds1)))"

fun ranges_string :: "range_text list \<Rightarrow> string" where
  "ranges_string [] = []"
| "ranges_string [e] = range_text_string e"
| "ranges_string (e # es) = range_text_string e @ '','' @ ranges_string es"

text \<open>The end of a run of digits: the end of the string or a character that is no digit.\<close>

definition stops :: "string \<Rightarrow> bool" where
  "stops rest = (rest = [] \<or> \<not> isdigit (hd rest))"

text \<open>A covered plate without field changes, with normal record and no change status.\<close>

definition cp_cleared :: "CoveredPlate \<Rightarrow> bool" where
  "cp_cleared cp =
     (cp_changes cp = [] \<and> recStatus (cp_status cp) = RECORD_NORMAL
      \<and> changeStatus (cp_status cp) = CHANGE_NONE)"

text \<open>The signature status of a node agrees with the completion of its signature fields.\<close>

definition sig_consistent :: "eSigNode \<Rightarrow> bool" where
  "sig_consistent n =
     ((signatureStatus (esn_status n) = SIG_COMPLETE) = list_all sf_completed (esn_sig_fields n))"

text \<open>
  The operations that \<open>process_input\<close> applies to a node after its creation, and sequences
  of them.
\<close>

datatype node_op =
    OpRecSeen
  | OpSign StringList Field TransactionID
  | OpFreeSignedValues TransactionID
  | OpUnsign Field
  | OpDataChange "exclusion list" StringList Plate Field TransactionID

fun apply_op :: "eSigNode \<Rightarrow> node_op \<Rightarrow> eSigNode" where
  "apply_op n OpRecSeen = esn_sig_rec_seen n"
| "apply_op n (OpSign sl field txn_id) = esn_sign n sl field txn_id"
| "apply_op n (OpFreeSignedValues txn_id) = esn_free_signed_values n txn_id"
| "apply_op n (OpUnsign field) = esn_unsign n field"
| "apply_op n (OpDataChange exclusions sl plate field txn_id) =
     esn_datachange exclusions n sl plate field txn_id"

definition new_node :: "Patient \<Rightarrow> Visit \<Rightarrow> eSigConfig \<Rightarrow> eSigNode" where
  "new_node pid visit config = esn_alloc_sigfields (esn_alloc pid visit config)"

text \<open>An unsign names one of the signature fields of the node's own configuration.\<close>

fun op_own_field :: "eSigConfig \<Rightarrow> node_op \<Rightarrow> bool" where
  "op_own_field config (OpUnsign field) =
     (field \<in> set (map sf_field (sigfield_slots (esc_sig_fields config))))"
| "op_own_field config _ = True"

text \<open>
  The configuration counts its signature fields as the grammar does: \<open>n_sig_fields\<close> is
  the number of slots of the array, at least one and within the range of an \<open>int\<close>.
\<close>

definition sig_fields_counted :: "eSigConfig \<Rightarrow> bool" where
  "sig_fields_counted config =
     (0 < length (sigfield_slots (esc_sig_fields config))
      \<and> length (sigfield_slots (esc_sig_fields config)) < 2 ^ 31
      \<and> esc_n_sig_fields config = of_nat (length (sigfield_slots (esc_sig_fields config))))"

text \<open>The signature status and the completion flags of the nodes of a tree.\<close>

definition sig_summary :: "eSigNode \<Rightarrow> signatureStatus \<times> bool list" where
  "sig_summary n = (signatureStatus (esn_status n), map sf_completed (esn_sig_fields n))"

text \<open>The tail of a printed element: what follows its first number.\<close>

definition rl_elem_tail :: "rl_node \<Rightarrow> RangeList \<Rightarrow> string" where
  "rl_elem_tail e es =
     (if min_of e \<noteq> max_of e then CHR ''-'' # fmt_lld (max_of e) else [])
     @ (if es \<noteq> [] then [CHR '',''] else []) @ rl_tostring es"


text \<open>What the loop of \<open>esn_sign\<close> does to one slot of the array.\<close>

definition sign_mark :: "StringList \<Rightarrow> Field \<Rightarrow> eSigField \<Rightarrow> eSigField" where
  "sign_mark sl field f =
     (if sf_field f = field
      then f\<lparr>sf_completed := True,
             sf_desc := Some (sl_value sl AUDITREC_FIELDDESC),
             sf_value := Some (sl_value sl AUDITREC_NEWVALUE)\<rparr>
      else f)"

text \<open>The invariant of a node of the configuration \<open>config\<close>.\<close>

definition node_inv :: "eSigConfig \<Rightarrow> eSigNode \<Rightarrow> bool" where
  "node_inv config n =
     (esn_config n = config
      \<and> map sf_field (esn_sig_fields n) = map sf_field (sigfield_slots (esc_sig_fields config))
      \<and> sig_consistent n)"

text \<open>
  The conditions on a configuration under which the invariant of the nodes is stated: the
  bounds of the signature fields are within the range of an \<open>int\<close> (the grammar's numbers
  are), every record counts its signature fields, and records that give the same key to
  their nodes have the same signature fields.
\<close>

definition rl_int_bounds :: "RangeList \<Rightarrow> bool" where
  "rl_int_bounds r = list_all (\<lambda>e. - (2 ^ 31) \<le> sint (min_of e) \<and> sint (max_of e) < 2 ^ 31) r"

text \<open>Two configuration records give the same key to the nodes of a patient and visit.\<close>

definition same_node_key :: "eSigConfig \<Rightarrow> eSigConfig \<Rightarrow> bool" where
  "same_node_key a b =
     (esc_sig_plate a = esc_sig_plate b
      \<and> (ucast (rl_min (esc_sig_fields a)) :: 32 word) = ucast (rl_min (esc_sig_fields b)))"

definition cfg_keys_agree :: "eSigConfig list \<Rightarrow> bool" where
  "cfg_keys_agree cfg =
     list_all (\<lambda>a. list_all (\<lambda>b. same_node_key a b \<longrightarrow> esc_sig_fields a = esc_sig_fields b) cfg) cfg"

definition cfg_record_ok :: "eSigConfig \<Rightarrow> bool" where
  "cfg_record_ok c = (sig_fields_counted c \<and> rl_int_bounds (esc_sig_fields c))"

text \<open>
  Every node of the tree belongs to a record of the configuration and satisfies its
  invariant.
\<close>

definition tree_inv :: "eSigConfig list \<Rightarrow> eSigNode list \<Rightarrow> bool" where
  "tree_inv cfg tree = (\<forall>n\<in>set tree. esn_config n \<in> set cfg \<and> node_inv (esn_config n) n)"

section \<open>Configurations and audit trails used as examples\<close>

text \<open>
  Three configurations, built by the actions of the grammar:
  \<^item> \<open>signature "A" plate 10 visit * fields 20 { plate 10; plate 11; }\<close>
  \<^item> \<open>signature "A" plate 10 visit * fields 20-21 { plate 10; plate 11; }\<close>
  \<^item> \<open>signature "A" plate 10 visit * fields 20 { plate 10; }\<close> followed by
    \<open>signature "B" plate 10 visit * fields 20-21 { plate 10; }\<close>: two signatures on the
    same plate with the same first signature field.
  The states are those reached after the first line of the audit trails below.
\<close>

definition config_one_field :: "eSigConfig list" where
  "config_one_field =
     signature (sig_config 1 ''A'' 10 visit_range_wildcard (range_element_single 20))
       (plate_config_more [plate_defn 2 10 []] (plate_defn 3 11 []))"

definition config_two_fields :: "eSigConfig list" where
  "config_two_fields =
     signature (sig_config 1 ''A'' 10 visit_range_wildcard (range_element_pair 20 21))
       (plate_config_more [plate_defn 2 10 []] (plate_defn 3 11 []))"

definition config_shared_key :: "eSigConfig list" where
  "config_shared_key =
     config_more
       (signature (sig_config 1 ''A'' 10 visit_range_wildcard (range_element_single 20))
          [plate_defn 2 10 []])
       (signature (sig_config 3 ''B'' 10 visit_range_wildcard (range_element_pair 20 21))
          [plate_defn 4 10 []])"

definition node_plates_summary :: "eSigNode \<Rightarrow> (Plate \<times> recStatus \<times> Field list) list" where
  "node_plates_summary n =
     map (\<lambda>cp. (cp_plate cp, recStatus (cp_status cp), map fc_field (cp_changes cp))) (esn_plates n)"

definition shared_key_state1 :: input_state where
  "shared_key_state1 =
     \<lparr>in_txn_id = 1, in_last_txn = ''20250102|130000|u1|1001|1|10'',
      in_tree =
        [\<lparr>esn_id = 1001, esn_visit = 1,
          esn_config =
            \<lparr>esc_plate = 10, esc_ignore_fields = [], esc_visits = [RL 0 65535],
             esc_sig_plate = 10, esc_n_sig_fields = 1, esc_sig_fields = [RL 20 20],
             esc_name = Some ''A'', esc_serial = 2\<rparr>,
          esn_status = \<lparr>signatureStatus = SIG_COMPLETE, recStatus = RECORD_NORMAL,
                        changeStatus = CHANGE_NONE\<rparr>,
          esn_signer = Some ''u1'', esn_date = Some ''20250102'', esn_time = Some ''130000'',
          esn_plates = [],
          esn_sig_fields =
            [\<lparr>sf_field = 20, sf_completed = True, sf_desc = Some ''Signer'',
              sf_value = Some ''u1''\<rparr>],
          esn_flags = 1, esn_txn_id = 1\<rparr>]\<rparr>"

definition two_fields_node1 :: eSigNode where
  "two_fields_node1 =
     \<lparr>esn_id = 1001, esn_visit = 1,
      esn_config =
        \<lparr>esc_plate = 11, esc_ignore_fields = [], esc_visits = [RL 0 65535],
         esc_sig_plate = 10, esc_n_sig_fields = 2, esc_sig_fields = [RL 20 21],
         esc_name = Some ''A'', esc_serial = 3\<rparr>,
      esn_status = \<lparr>signatureStatus = SIG_NONE, recStatus = RECORD_NORMAL,
                    changeStatus = CHANGE_NONE\<rparr>,
      esn_signer = None, esn_date = None, esn_time = None,
      esn_plates =
        [\<lparr>cp_plate = 11,
          cp_status = \<lparr>signatureStatus = SIG_NONE, recStatus = RECORD_NORMAL,
                       changeStatus = CHANGE_NONE\<rparr>,
          cp_is_final = False, cp_field_change_count = 0,
          cp_changes =
            [\<lparr>fc_field = 12,
              fc_status = \<lparr>signatureStatus = SIG_NONE, recStatus = RECORD_NORMAL,
                           changeStatus = CHANGE_DECLINED\<rparr>,
              fc_desc = Some ''Weight'', fc_old_value = Some [], fc_new_value = Some ''42'',
              fc_who = Some ''u1'', fc_date = Some ''20250101'', fc_time = Some ''120000'',
              fc_comment = None\<rparr>]\<rparr>],
      esn_sig_fields =
        [\<lparr>sf_field = 20, sf_completed = False, sf_desc = None, sf_value = None\<rparr>,
         \<lparr>sf_field = 21, sf_completed = False, sf_desc = None, sf_value = None\<rparr>],
      esn_flags = 0, esn_txn_id = 0\<rparr>"

definition two_fields_state1 :: input_state where
  "two_fields_state1 =
     \<lparr>in_txn_id = 1, in_last_txn = ''20250101|120000|u1|1001|1|11'', in_tree = [two_fields_node1]\<rparr>"

definition shared_key_node1 :: eSigNode where
  "shared_key_node1 = hd (in_tree shared_key_state1)"

definition two_fields_record :: eSigConfig where
  "two_fields_record = esn_config two_fields_node1"

declare rl_scan.simps(2) [simp del]
declare dec_nat.simps [simp del]

section \<open>Properties of range lists\<close>

subsection \<open>Membership and width\<close>

lemma rl_contains_set:
  "rl_contains r v \<longleftrightarrow> (\<exists>e\<in>set r. sint (min_of e) \<le> sint v \<and> sint v \<le> sint (max_of e))"
  by (induction r) auto

lemma rl_width_loop_acc: "rl_width_loop l v = v + rl_width_loop l 0"
proof (induction l arbitrary: v)
  case Nil
  show ?case by simp
next
  case (Cons r l)
  have "rl_width_loop (r # l) v = (v + (max_of r - min_of r) + 1) + rl_width_loop l 0"
    using Cons.IH [of "v + (max_of r - min_of r) + 1"] by simp
  moreover have "rl_width_loop (r # l) 0 = ((max_of r - min_of r) + 1) + rl_width_loop l 0"
    using Cons.IH [of "0 + (max_of r - min_of r) + 1"] by simp
  ultimately show ?case by simp
qed

lemma rl_width_Cons: "rl_width (r # l) = (max_of r - min_of r + 1) + rl_width l"
  using rl_width_loop_acc [of l "0 + (max_of r - min_of r) + 1"] by (simp add: rl_width_def)

lemma sint_image_interval:
  fixes a b :: "64 word"
  shows "sint ` {v::64 word. sint a \<le> sint v \<and> sint v \<le> sint b} = {sint a..sint b}"
proof
  show "sint ` {v::64 word. sint a \<le> sint v \<and> sint v \<le> sint b} \<subseteq> {sint a..sint b}" by auto
  show "{sint a..sint b} \<subseteq> sint ` {v::64 word. sint a \<le> sint v \<and> sint v \<le> sint b}"
  proof
    fix k assume k: "k \<in> {sint a..sint b}"
    have lo: "- (2 ^ 63) \<le> sint a" using sint_ge [of a] by simp
    have hi: "sint b < 2 ^ 63" using sint_lt [of b] by simp
    have "sint (word_of_int k :: 64 word) = k"
      using k lo hi by (simp add: sint_sbintrunc' signed_take_bit_int_eq_self)
    then show "k \<in> sint ` {v::64 word. sint a \<le> sint v \<and> sint v \<le> sint b}"
      using k by (intro image_eqI [where x = "word_of_int k"]) auto
  qed
qed

lemma card_interval:
  fixes a b :: "64 word"
  shows "card {v::64 word. sint a \<le> sint v \<and> sint v \<le> sint b} = nat (sint b - sint a + 1)"
proof -
  have "inj_on sint {v::64 word. sint a \<le> sint v \<and> sint v \<le> sint b}"
    by (rule inj_onI) (simp add: signed_word_eqI)
  then have "card (sint ` {v::64 word. sint a \<le> sint v \<and> sint v \<le> sint b})
           = card {v::64 word. sint a \<le> sint v \<and> sint v \<le> sint b}"
    by (rule card_image)
  then have "card {v::64 word. sint a \<le> sint v \<and> sint v \<le> sint b} = card {sint a..sint b}"
    by (simp only: sint_image_interval)
  then show ?thesis by simp
qed

lemma word_of_interval_card:
  fixes a b :: "64 word"
  assumes "sint a \<le> sint b"
  shows "(of_nat (nat (sint b - sint a + 1)) :: 64 word) = b - a + 1"
proof -
  have "(of_nat (nat (sint b - sint a + 1)) :: 64 word) = word_of_int (sint b - sint a + 1)"
    using assms by simp
  also have "\<dots> = b - a + 1" by simp
  finally show ?thesis .
qed

lemma rl_contains_Cons_set:
  "{v. rl_contains (e # es) v}
     = {v::64 word. sint (min_of e) \<le> sint v \<and> sint v \<le> sint (max_of e)} \<union> {v. rl_contains es v}"
  by auto

lemma rl_disjoint_head:
  assumes "list_all (\<lambda>f. sint (max_of e) < sint (min_of f) \<or> sint (max_of f) < sint (min_of e)) es"
  shows "{v::64 word. sint (min_of e) \<le> sint v \<and> sint v \<le> sint (max_of e)} \<inter> {v. rl_contains es v} = {}"
  using assms by (fastforce simp: rl_contains_set list_all_iff)

lemma rl_width_card:
  "rl_canonical r \<Longrightarrow> rl_disjoint r \<Longrightarrow> rl_width r = of_nat (card {v. rl_contains r v})"
proof (induction r)
  case Nil
  show ?case by (simp add: rl_width_def)
next
  case (Cons e es)
  let ?I = "{v::64 word. sint (min_of e) \<le> sint v \<and> sint v \<le> sint (max_of e)}"
  have le: "sint (min_of e) \<le> sint (max_of e)"
    using Cons.prems(1) by (simp add: rl_canonical_def)
  have IH: "rl_width es = of_nat (card {v. rl_contains es v})"
    using Cons by (simp add: rl_canonical_def)
  have disj: "?I \<inter> {v. rl_contains es v} = {}"
    using Cons.prems(2) by (intro rl_disjoint_head) simp
  have "card {v. rl_contains (e # es) v} = card ?I + card {v. rl_contains es v}"
    unfolding rl_contains_Cons_set using disj by (intro card_Un_disjoint) simp_all
  then have "(of_nat (card {v. rl_contains (e # es) v}) :: 64 word)
      = of_nat (nat (sint (max_of e) - sint (min_of e) + 1)) + of_nat (card {v. rl_contains es v})"
    by (simp add: card_interval)
  also have "\<dots> = (max_of e - min_of e + 1) + rl_width es"
    using le IH by (simp only: word_of_interval_card)
  finally show ?case by (simp add: rl_width_Cons)
qed

lemma card_values_1_to_4: "card {v::64 word. sint (1::64 word) \<le> sint v \<and> sint v \<le> sint (4::64 word)} = 4"
  by (simp only: card_interval) simp

lemma rl_width_sum: "rl_width r = sum_list (map (\<lambda>e. max_of e - min_of e + 1) r)"
proof (induction r)
  case Nil
  show ?case by (simp add: rl_width_def)
next
  case (Cons e es)
  then show ?case by (simp add: rl_width_Cons)
qed

text \<open>
  Claim C7, as amended. \<open>rl_contains l v\<close> holds exactly when some node of the list has
  \<open>min \<le> v \<le> max\<close>. \<open>rl_width l\<close> is, for every list, the sum of \<open>max - min + 1\<close> over the
  nodes, in 64-bit arithmetic; when every node has \<open>min \<le> max\<close> and no two nodes overlap,
  this sum is the number of values the list contains, as a 64-bit value.
\<close>

theorem rl_contains_width:
  "(rl_contains r v \<longleftrightarrow> (\<exists>e\<in>set r. sint (min_of e) \<le> sint v \<and> sint v \<le> sint (max_of e)))
   \<and> rl_width r = sum_list (map (\<lambda>e. max_of e - min_of e + 1) r)
   \<and> (rl_canonical r \<and> rl_disjoint r \<longrightarrow> rl_width r = of_nat (card (Collect (rl_contains r))))"
  using rl_contains_set [of r v] rl_width_card [of r] rl_width_sum [of r] by simp

theorem rl_contains_width_witness:
  "rl_canonical [RL 1 3, RL 5 5, RL 7 10] \<and> rl_disjoint [RL 1 3, RL 5 5, RL 7 10]
   \<and> rl_contains [RL 1 3, RL 5 5, RL 7 10] 8
   \<and> rl_width [RL 1 3, RL 5 5, RL 7 10] = (3 - 1 + 1) + (5 - 5 + 1) + (10 - 7 + 1)
   \<and> rl_width [RL 1 3, RL 5 5, RL 7 10] = 8
   \<and> (8 :: 64 word) = of_nat (card (Collect (rl_contains [RL 1 3, RL 5 5, RL 7 10])))"
  using rl_contains_width [of "[RL 1 3, RL 5 5, RL 7 10]" 8]
  by (simp add: rl_canonical_def rl_width_def)

text \<open>
  The claim as stated fails for overlapping nodes, which the parser accepts: the list read
  from \<open>1-3,2-4\<close> has width 6 and contains the four values 1 to 4.
\<close>

theorem rl_width_overlap_counterexample:
  "rl_fromstring [] ''1-3,2-4'' = (0, [RL 1 3, RL 2 4])
   \<and> rl_canonical [RL 1 3, RL 2 4]
   \<and> rl_width [RL 1 3, RL 2 4] = 6
   \<and> card (Collect (rl_contains [RL 1 3, RL 2 4])) = 4"
proof -
  have "Collect (rl_contains [RL 1 3, RL 2 4])
      = {v::64 word. sint (1::64 word) \<le> sint v \<and> sint v \<le> sint (4::64 word)}"
    by (auto split: if_splits)
  then have "card (Collect (rl_contains [RL 1 3, RL 2 4])) = 4"
    by (simp only: card_values_1_to_4)
  moreover have "rl_fromstring [] ''1-3,2-4'' = (0, [RL 1 3, RL 2 4])"
    by (simp add: rl_fromstring_def rl_scan.simps isdigit_def isspace_def rl_digits_def
        rl_chain_def rl_close_def)
  ultimately show ?thesis by (simp add: rl_canonical_def rl_width_def)
qed

subsection \<open>Parsing\<close>

lemma dropWhile_keeps_stop:
  assumes "\<not> P c"
  shows "\<exists>pre'. dropWhile P (cs @ c # post) = pre' @ c # post \<and> length pre' \<le> length cs"
proof (cases "\<forall>x\<in>set cs. P x")
  case True
  then have "dropWhile P (cs @ c # post) = [] @ c # post \<and> length ([] :: 'a list) \<le> length cs"
    using assms by (simp add: dropWhile_append)
  then show ?thesis by (rule exI)
next
  case False
  then obtain x where "x \<in> set cs" "\<not> P x" by blast
  then have "dropWhile P (cs @ c # post) = dropWhile P cs @ c # post"
    by (rule dropWhile_append1)
  then have "dropWhile P (cs @ c # post) = dropWhile P cs @ c # post
      \<and> length (dropWhile P cs) \<le> length cs"
    by (simp add: length_dropWhile_le)
  then show ?thesis by (rule exI)
qed

lemma rl_scan_space: "isspace c \<Longrightarrow> rl_scan t out l (c # cs) = rl_scan t out l cs"
  by (simp add: rl_scan.simps(2))

lemma rl_scan_digit:
  "\<not> isspace c \<Longrightarrow> isdigit c \<Longrightarrow>
   rl_scan t out l (c # cs) =
     (if t = DASH then
        (case l of
           Some r \<Rightarrow> rl_scan NUMBER (out @ [rl_close r (rl_digits (c # takeWhile isdigit cs))]) None
                       (dropWhile isdigit cs)
         | None \<Rightarrow> (- 1, rl_chain out l))
      else rl_scan NUMBER (rl_chain out l)
             (Some (RL (rl_digits (c # takeWhile isdigit cs)) (rl_digits (c # takeWhile isdigit cs))))
             (dropWhile isdigit cs))"
  by (simp add: rl_scan.simps(2) Let_def)

lemma rl_scan_other:
  "\<not> isspace c \<Longrightarrow> \<not> isdigit c \<Longrightarrow>
   rl_scan t out l (c # cs) =
     (if c = CHR '','' then rl_scan COMMA (rl_chain out l) None cs
      else if c = CHR ''-'' then rl_scan DASH out l cs
      else if c = CHR 0x00 then rl_scan EOL out l cs
      else (- 1, rl_chain out l))"
  by (simp add: rl_scan.simps(2))

lemma rl_scan_spaces:
  "\<forall>c\<in>set ws. isspace c \<Longrightarrow>
   rl_scan t out l ws = (if t \<noteq> NUMBER then (- 1, rl_chain out l) else (0, rl_chain out l))"
proof (induction ws)
  case Nil
  show ?case by simp
next
  case (Cons a ws)
  then have "isspace a" by simp
  then have "rl_scan t out l (a # ws) = rl_scan t out l ws" by (rule rl_scan_space)
  then show ?case using Cons by simp
qed

lemma not_digit_dash: "\<not> isdigit CHR ''-''" by (simp add: isdigit_def)
lemma not_space_dash: "\<not> isspace CHR ''-''" by (simp add: isspace_def)

text \<open>A suffix that makes every scan fail makes the scan of any longer string fail.\<close>

lemma rl_scan_fails_suffix:
  assumes stop: "\<not> isdigit (hd suf)" "suf \<noteq> []"
    and fails: "\<And>t out l. fst (rl_scan t out l suf) = - 1"
  shows "fst (rl_scan t out l (pre @ suf)) = - 1"
proof (induction "length pre" arbitrary: pre t out l rule: less_induct)
  case less
  show ?case
  proof (cases pre)
    case Nil
    then show ?thesis by (simp add: fails)
  next
    case (Cons c cs)
    obtain s0 sr where suf: "suf = s0 # sr" using stop(2) by (cases suf) auto
    then have s0: "\<not> isdigit s0" using stop(1) by simp
    have "\<exists>pre'. dropWhile isdigit (cs @ s0 # sr) = pre' @ s0 # sr \<and> length pre' \<le> length cs"
      using s0 by (rule dropWhile_keeps_stop)
    then obtain pre' where pre': "dropWhile isdigit (cs @ suf) = pre' @ suf"
        and len: "length pre' \<le> length cs"
      unfolding suf by blast
    have IH1: "\<And>t out l. fst (rl_scan t out l (cs @ suf)) = - 1"
      using less [of cs] Cons by simp
    have IH2: "\<And>t out l. fst (rl_scan t out l (pre' @ suf)) = - 1"
      using less [of pre'] Cons len by simp
    show ?thesis
    proof (cases "isspace c")
      case True
      then show ?thesis by (simp add: Cons rl_scan_space IH1)
    next
      case sp: False
      show ?thesis
      proof (cases "isdigit c")
        case True
        show ?thesis
          using sp True by (simp add: Cons rl_scan_digit pre' IH2 split: option.split)
      next
        case False
        show ?thesis
          using sp False by (simp add: Cons rl_scan_other IH1)
      qed
    qed
  qed
qed

lemma rl_scan_trailing_dash:
  assumes ws: "\<forall>c\<in>set ws. isspace c"
  shows "fst (rl_scan t out l (pre @ CHR ''-'' # ws)) = - 1"
proof (rule rl_scan_fails_suffix)
  show "\<not> isdigit (hd (CHR ''-'' # ws))" by (simp add: not_digit_dash)
  show "CHR ''-'' # ws \<noteq> []" by simp
  show "fst (rl_scan t out l (CHR ''-'' # ws)) = - 1" for t out l
    using ws by (simp add: rl_scan_other not_digit_dash not_space_dash rl_scan_spaces)
qed

lemma rl_scan_stray:
  assumes c: "\<not> isspace c" "\<not> isdigit c" "c \<noteq> CHR '',''" "c \<noteq> CHR ''-''" "c \<noteq> CHR 0x00"
  shows "fst (rl_scan t out l (pre @ c # post)) = - 1"
proof (rule rl_scan_fails_suffix)
  show "\<not> isdigit (hd (c # post))" using c by simp
  show "c # post \<noteq> []" by simp
  show "fst (rl_scan t out l (c # post)) = - 1" for t out l
    using c by (simp add: rl_scan_other)
qed

lemma rl_fromstring_fst:
  "s \<noteq> [] \<Longrightarrow> s \<noteq> ''*'' \<Longrightarrow> fst (rl_fromstring prior s) = fst (rl_scan NUMBER [] None s)"
  by (simp add: rl_fromstring_def case_prod_beta)

subsection \<open>Printing and parsing back\<close>

lemma of_char_digit_char: "n < 10 \<Longrightarrow> (of_char (digit_char n) :: nat) = 48 + n"
proof -
  assume "n < 10"
  then consider "n = 0" | "n = 1" | "n = 2" | "n = 3" | "n = 4" | "n = 5" | "n = 6" | "n = 7"
    | "n = 8" | "n = 9" by atomize_elim arith
  then show ?thesis by cases (simp_all add: digit_char_def)
qed

lemma isdigit_digit_char: "n < 10 \<Longrightarrow> isdigit (digit_char n)"
  by (simp add: isdigit_def of_char_digit_char)

lemma isspace_digit_char: "n < 10 \<Longrightarrow> \<not> isspace (digit_char n)"
  by (simp add: isspace_def of_char_digit_char)

lemma dec_nat_digits: "\<forall>c\<in>set (dec_nat n). isdigit c"
proof (induction n rule: dec_nat.induct)
  case (1 n)
  show ?case
  proof (cases "n < 10")
    case True
    then show ?thesis by (subst dec_nat.simps) (simp add: isdigit_digit_char)
  next
    case False
    then show ?thesis using 1 by (subst dec_nat.simps) (simp add: isdigit_digit_char)
  qed
qed

lemma dec_nat_nonempty: "dec_nat n \<noteq> []"
  by (subst dec_nat.simps) simp

lemma rl_digits_snoc:
  "rl_digits (ds @ [d]) = (rl_digits ds * 10) + (of_nat (of_char d) - 48)"
  by (simp add: rl_digits_def)

lemma rl_digits_dec_nat: "rl_digits (dec_nat n) = of_nat n"
proof (induction n rule: dec_nat.induct)
  case (1 n)
  show ?case
  proof (cases "n < 10")
    case True
    then have "dec_nat n = [digit_char n]" by (subst dec_nat.simps) simp
    then show ?thesis using True by (simp add: rl_digits_def of_char_digit_char)
  next
    case False
    then have eq: "dec_nat n = dec_nat (n div 10) @ [digit_char (n mod 10)]"
      by (subst dec_nat.simps) simp
    have "rl_digits (dec_nat n) = (of_nat (n div 10) * 10) + of_nat (n mod 10)"
      using 1 False by (simp add: eq rl_digits_snoc of_char_digit_char)
    also have "\<dots> = of_nat (n div 10 * 10 + n mod 10)"
      by (simp only: of_nat_add of_nat_mult of_nat_numeral)
    also have "\<dots> = of_nat n" by simp
    finally show ?thesis .
  qed
qed

lemma fmt_lld_nonneg: "0 \<le> sint w \<Longrightarrow> fmt_lld w = dec_nat (nat (sint w))"
  by (simp add: fmt_lld_def dec_int_def)

lemma rl_digits_fmt_lld: "0 \<le> sint w \<Longrightarrow> rl_digits (fmt_lld w) = w"
  by (simp add: fmt_lld_nonneg rl_digits_dec_nat)

lemma fmt_lld_digits: "0 \<le> sint w \<Longrightarrow> \<forall>c\<in>set (fmt_lld w). isdigit c"
  by (simp add: fmt_lld_nonneg dec_nat_digits)

lemma isdigit_not_isspace: "isdigit c \<Longrightarrow> \<not> isspace c"
  by (auto simp: isdigit_def isspace_def)

text \<open>Scanning a printed number that is followed by the end or by a character that is no digit.\<close>

lemma rl_scan_number:
  assumes w: "0 \<le> sint w" and rest: "rest = [] \<or> \<not> isdigit (hd rest)"
  shows "rl_scan t out l (fmt_lld w @ rest) =
     (if t = DASH then
        (case l of
           Some r \<Rightarrow> rl_scan NUMBER (out @ [rl_close r w]) None rest
         | None \<Rightarrow> (- 1, rl_chain out l))
      else rl_scan NUMBER (rl_chain out l) (Some (RL w w)) rest)"
proof -
  obtain c cs where f: "fmt_lld w = c # cs"
    using dec_nat_nonempty [of "nat (sint w)"] w by (cases "fmt_lld w") (auto simp: fmt_lld_nonneg)
  have dig: "isdigit c" "\<forall>x\<in>set cs. isdigit x"
    using fmt_lld_digits [OF w] f by simp_all
  have tw: "takeWhile isdigit (cs @ rest) = cs"
    using dig(2) rest by (cases rest) (simp_all add: takeWhile_append2)
  have dw: "dropWhile isdigit (cs @ rest) = rest"
    using dig(2) rest by (cases rest) (simp_all add: dropWhile_append2)
  have v: "rl_digits (c # cs) = w"
    using rl_digits_fmt_lld [OF w] f by simp
  show ?thesis
    using dig(1) isdigit_not_isspace [OF dig(1)]
    by (simp add: f rl_scan.simps(2) Let_def tw dw v)
qed

lemma not_digit_comma: "\<not> isdigit CHR '',''" by (simp add: isdigit_def)
lemma not_space_comma: "\<not> isspace CHR '',''" by (simp add: isspace_def)

lemma rl_scan_comma: "rl_scan t out l (CHR '','' # cs) = rl_scan COMMA (rl_chain out l) None cs"
  by (simp add: rl_scan.simps(2) not_digit_comma not_space_comma)

lemma rl_scan_dash: "rl_scan t out l (CHR ''-'' # cs) = rl_scan DASH out l cs"
  by (simp add: rl_scan.simps(2) not_digit_dash not_space_dash)

lemma rl_close_canonical: "sint a \<le> sint b \<Longrightarrow> rl_close (RL a a) b = RL a b"
  by (simp add: rl_close_def)

lemma rl_tostring_Cons: "rl_tostring (e # es) = fmt_lld (min_of e) @ rl_elem_tail e es"
  by (simp add: rl_elem_tail_def)

lemma rl_elem_tail_stop: "rl_elem_tail e es = [] \<or> \<not> isdigit (hd (rl_elem_tail e es))"
  by (cases es) (simp_all add: rl_elem_tail_def not_digit_comma not_digit_dash)

lemma rl_sep_stop:
  "(if es \<noteq> [] then [CHR '',''] else []) @ rl_tostring es = []
   \<or> \<not> isdigit (hd ((if es \<noteq> [] then [CHR '',''] else []) @ rl_tostring es))"
  by (cases es) (simp_all add: not_digit_comma)

lemma rl_scan_tostring:
  "rl_printable r \<Longrightarrow> r \<noteq> [] \<Longrightarrow> t \<noteq> DASH \<Longrightarrow>
   rl_scan t out l (rl_tostring r) = (0, rl_chain out l @ r)"
proof (induction r arbitrary: t out l)
  case Nil
  then show ?case by simp
next
  case (Cons e es)
  obtain a b where e: "e = RL a b" by (cases e)
  have a0: "0 \<le> sint a" and ab: "sint a \<le> sint b" and es: "rl_printable es"
    using Cons.prems(1) by (simp_all add: rl_printable_def e)
  have b0: "0 \<le> sint b" using a0 ab by simp
  let ?sep = "(if es \<noteq> [] then [CHR '',''] else []) @ rl_tostring es"
  let ?out = "rl_chain out l"
  have first: "rl_scan t out l (rl_tostring (e # es))
      = rl_scan NUMBER ?out (Some (RL a a)) (rl_elem_tail e es)"
    unfolding rl_tostring_Cons using Cons.prems(3) rl_elem_tail_stop [of e es]
    by (simp add: rl_scan_number [OF a0] e)
  have second: "rl_scan NUMBER ?out (Some (RL a a)) (rl_elem_tail e es)
      = rl_scan NUMBER (?out @ [e]) None ?sep
      \<or> rl_scan NUMBER ?out (Some (RL a a)) (rl_elem_tail e es)
      = rl_scan NUMBER ?out (Some e) ?sep"
  proof (cases "a = b")
    case True
    then show ?thesis by (simp add: rl_elem_tail_def e)
  next
    case False
    have "rl_scan NUMBER ?out (Some (RL a a)) (rl_elem_tail e es)
        = rl_scan DASH ?out (Some (RL a a)) (fmt_lld b @ ?sep)"
      using False by (simp add: rl_elem_tail_def e rl_scan_dash)
    also have "\<dots> = rl_scan NUMBER (?out @ [rl_close (RL a a) b]) None ?sep"
      using rl_sep_stop [of es] by (simp add: rl_scan_number [OF b0])
    finally show ?thesis by (simp add: rl_close_canonical [OF ab] e)
  qed
  have third: "rl_scan NUMBER (?out @ [e]) None ?sep = (0, ?out @ e # es)"
       "rl_scan NUMBER ?out (Some e) ?sep = (0, ?out @ e # es)"
  proof -
    show "rl_scan NUMBER (?out @ [e]) None ?sep = (0, ?out @ e # es)"
    proof (cases "es = []")
      case True
      then show ?thesis by (simp add: rl_chain_def)
    next
      case False
      then show ?thesis
        using Cons.IH [OF es False, of COMMA "rl_chain (?out @ [e]) None" None]
        by (simp add: rl_scan_comma rl_chain_def)
    qed
    show "rl_scan NUMBER ?out (Some e) ?sep = (0, ?out @ e # es)"
    proof (cases "es = []")
      case True
      then show ?thesis by (simp add: rl_chain_def)
    next
      case False
      then show ?thesis
        using Cons.IH [OF es False, of COMMA "rl_chain ?out (Some e)" None]
        by (simp add: rl_scan_comma rl_chain_def)
    qed
  qed
  show ?case using first second third by auto
qed

lemma rl_tostring_not_star: "rl_printable r \<Longrightarrow> rl_tostring r \<noteq> ''*''"
proof (cases r)
  case Nil
  then show ?thesis by simp
next
  case (Cons e es)
  assume "rl_printable r"
  then have w: "0 \<le> sint (min_of e)" by (simp add: rl_printable_def Cons)
  obtain c cs where f: "fmt_lld (min_of e) = c # cs"
    using dec_nat_nonempty [of "nat (sint (min_of e))"] w
    by (cases "fmt_lld (min_of e)") (auto simp: fmt_lld_nonneg)
  have "isdigit c" using fmt_lld_digits [OF w] f by simp
  then have "c \<noteq> CHR ''*''" by (auto simp: isdigit_def)
  then show ?thesis by (simp add: Cons f)
qed

lemma rl_tostring_empty_iff: "rl_printable r \<Longrightarrow> rl_tostring r = [] \<longleftrightarrow> r = []"
proof (cases r)
  case Nil
  then show ?thesis by simp
next
  case (Cons e es)
  assume "rl_printable r"
  then have w: "0 \<le> sint (min_of e)" by (simp add: rl_printable_def Cons)
  then show ?thesis
    using dec_nat_nonempty [of "nat (sint (min_of e))"] by (simp add: Cons fmt_lld_nonneg)
qed

text \<open>
  Claim C6, as amended. For every list whose nodes have \<open>0 \<le> min \<le> max\<close>, parsing the
  string that \<open>rl_tostring\<close> prints succeeds and gives the same nodes in the same order.
\<close>

theorem rl_roundtrip:
  assumes "rl_printable r"
  shows "rl_fromstring prior (rl_tostring r) = (0, r)"
proof (cases "r = []")
  case True
  then show ?thesis by (simp add: rl_fromstring_def)
next
  case False
  have "rl_scan NUMBER [] None (rl_tostring r) = (0, r)"
    using rl_scan_tostring [OF assms False, of NUMBER "[]" None] by (simp add: rl_chain_def)
  then show ?thesis
    using False rl_tostring_not_star [OF assms] rl_tostring_empty_iff [OF assms]
    by (simp add: rl_fromstring_def)
qed

theorem rl_roundtrip_witness:
  "rl_printable [RL 1 3, RL 5 5, RL 7 10]
   \<and> rl_tostring [RL 1 3, RL 5 5, RL 7 10] = ''1-3,5,7-10''
   \<and> rl_fromstring [] ''1-3,5,7-10'' = (0, [RL 1 3, RL 5 5, RL 7 10])"
proof -
  have p: "rl_printable [RL 1 3, RL 5 5, RL 7 10]"
    by (simp add: rl_printable_def)
  have s: "rl_tostring [RL 1 3, RL 5 5, RL 7 10] = ''1-3,5,7-10''"
    by (simp add: fmt_lld_def dec_int_def dec_nat.simps digit_char_def)
  show ?thesis using rl_roundtrip [OF p, of "[]"] p s by simp
qed

text \<open>
  The claim as stated fails for a node with a negative bound: the list with the single node
  \<open>[-5, -5]\<close> has \<open>min \<le> max\<close>, is printed as \<open>-5\<close>, and the parser takes the sign for the
  dash of a range and returns the error.
\<close>

theorem rl_roundtrip_negative_counterexample:
  "rl_canonical [RL (- 5) (- 5)]
   \<and> rl_tostring [RL (- 5) (- 5)] = ''-5''
   \<and> rl_fromstring [] (rl_tostring [RL (- 5) (- 5)]) = (- 1, [])"
  by (simp add: rl_canonical_def fmt_lld_def dec_int_def dec_nat.simps digit_char_def
      rl_fromstring_def rl_scan.simps isdigit_def isspace_def rl_chain_def)

subsection \<open>Accepted and rejected strings\<close>

lemma xor_swap_RL: "xor_swap (RL a b) = RL b a"
  by (simp add: xor_swap_def Let_def xor.commute xor.left_commute)

lemma rl_close_node:
  "rl_close (RL a a) b = (if sint a \<le> sint b then RL a b else RL b a)"
  by (simp add: rl_close_def xor_swap_RL)

lemma digits_value_snoc: "digits_value (ds @ [d]) = digits_value ds * 10 + (of_char d - 48)"
  by (simp add: digits_value_def)

lemma rl_digits_value: "list_all isdigit ds \<Longrightarrow> rl_digits ds = of_nat (digits_value ds)"
proof (induction ds rule: rev_induct)
  case Nil
  show ?case by (simp add: rl_digits_def digits_value_def)
next
  case (snoc d ds)
  then have d: "48 \<le> (of_char d :: nat)" and IH: "rl_digits ds = of_nat (digits_value ds)"
    by (simp_all add: isdigit_def)
  have "(of_nat (of_char d - 48) :: 64 word) = of_nat (of_char d) - 48"
    using d by (simp add: of_nat_diff)
  then show ?case
    by (simp add: rl_digits_snoc digits_value_snoc IH)
qed

lemma rl_scan_white: "white_space ws \<Longrightarrow> rl_scan t out l (ws @ rest) = rl_scan t out l rest"
  by (induction ws) (simp_all add: white_space_def rl_scan_space)

lemma stops_white: "white_space ws \<Longrightarrow> stops rest \<Longrightarrow> stops (ws @ rest)"
  by (cases ws) (auto simp: white_space_def stops_def isdigit_not_isspace)

lemma stops_simps: "stops []" "stops (CHR '','' # cs)" "stops (CHR ''-'' # cs)"
  by (simp_all add: stops_def not_digit_comma not_digit_dash)

lemma rl_scan_run:
  assumes ds: "digit_run ds" and rest: "stops rest"
  shows "rl_scan t out l (ds @ rest) =
     (if t = DASH then
        (case l of
           Some r \<Rightarrow> rl_scan NUMBER (out @ [rl_close r (of_nat (digits_value ds))]) None rest
         | None \<Rightarrow> (- 1, rl_chain out l))
      else rl_scan NUMBER (rl_chain out l)
             (Some (RL (of_nat (digits_value ds)) (of_nat (digits_value ds)))) rest)"
proof -
  obtain c cs where f: "ds = c # cs" using ds by (cases ds) (auto simp: digit_run_def)
  have dig: "isdigit c" "\<forall>x\<in>set cs. isdigit x"
    using ds f by (simp_all add: digit_run_def list_all_iff)
  have tw: "takeWhile isdigit (cs @ rest) = cs"
    using dig(2) rest by (cases rest) (simp_all add: takeWhile_append2 stops_def)
  have dw: "dropWhile isdigit (cs @ rest) = rest"
    using dig(2) rest by (cases rest) (simp_all add: dropWhile_append2 stops_def)
  have "rl_scan t out l ((c # cs) @ rest) =
     (if t = DASH then
        (case l of
           Some r \<Rightarrow> rl_scan NUMBER (out @ [rl_close r (rl_digits (c # cs))]) None rest
         | None \<Rightarrow> (- 1, rl_chain out l))
      else rl_scan NUMBER (rl_chain out l)
             (Some (RL (rl_digits (c # cs)) (rl_digits (c # cs)))) rest)"
    using dig(1) isdigit_not_isspace [OF dig(1)]
    by (simp add: rl_scan.simps(2) Let_def tw dw)
  then have "rl_scan t out l (ds @ rest) =
     (if t = DASH then
        (case l of
           Some r \<Rightarrow> rl_scan NUMBER (out @ [rl_close r (rl_digits ds)]) None rest
         | None \<Rightarrow> (- 1, rl_chain out l))
      else rl_scan NUMBER (rl_chain out l) (Some (RL (rl_digits ds) (rl_digits ds))) rest)"
    unfolding f [symmetric] .
  moreover have "rl_digits ds = of_nat (digits_value ds)"
    using rl_digits_value [of ds] ds by (simp add: digit_run_def)
  ultimately show ?thesis by (simp only:)
qed

text \<open>One element, followed by the end of the string or by a comma.\<close>

lemma rl_scan_range_text:
  assumes ok: "range_text_ok e" and t: "t \<noteq> DASH"
  shows "rl_scan t out None (range_text_string e) = (0, out @ [range_text_node e])"
    and "rl_scan t out None (range_text_string e @ CHR '','' # rest)
           = rl_scan COMMA (out @ [range_text_node e]) None rest"
proof -
  have both: "rl_scan t out None (range_text_string e) = (0, out @ [range_text_node e])
      \<and> rl_scan t out None (range_text_string e @ CHR '','' # rest)
           = rl_scan COMMA (out @ [range_text_node e]) None rest"
  proof (cases e)
    case (Number_text w1 ds w2)
    then have w: "white_space w1" "digit_run ds" "white_space w2" using ok by simp_all
    have s1: "stops (w2 @ [])" "stops (w2 @ CHR '','' # rest)"
      using w(3) by (simp_all add: stops_white stops_simps del: append_Nil2)
    have a: "rl_scan t out None (w1 @ ds @ w2 @ []) = (0, out @ [range_text_node e])"
      using t w(3)
      by (simp add: rl_scan_white [OF w(1)] rl_scan_run [OF w(2) s1(1)] rl_scan_white [OF w(3)]
          rl_chain_def Number_text del: append_Nil2)
    have b: "rl_scan t out None (w1 @ ds @ w2 @ CHR '','' # rest)
        = rl_scan COMMA (out @ [range_text_node e]) None rest"
      using t
      by (simp add: rl_scan_white [OF w(1)] rl_scan_run [OF w(2) s1(2)] rl_scan_white [OF w(3)]
          rl_scan_comma rl_chain_def Number_text)
    show ?thesis using a b by (simp add: Number_text)
  next
    case (Range_text w1 ds1 w2 w3 ds2 w4)
    then have w: "white_space w1" "digit_run ds1" "white_space w2" "white_space w3"
        "digit_run ds2" "white_space w4"
      using ok by simp_all
    have s1: "stops (w2 @ CHR ''-'' # x)" for x
      using w(3) by (simp add: stops_white stops_simps)
    have s2: "stops (w4 @ [])" "stops (w4 @ CHR '','' # rest)"
      using w(6) by (simp_all add: stops_white stops_simps del: append_Nil2)
    have pre: "rl_scan t out None (w1 @ ds1 @ w2 @ CHR ''-'' # w3 @ ds2 @ tl)
        = rl_scan NUMBER (out @ [range_text_node e]) None tl" if "stops tl" for tl
      using t
      by (simp add: rl_scan_white [OF w(1)] rl_scan_run [OF w(2) s1] rl_scan_white [OF w(3)]
          rl_scan_dash rl_scan_white [OF w(4)] rl_scan_run [OF w(5) that] rl_chain_def
          rl_close_node Range_text)
    have a: "rl_scan t out None (w1 @ ds1 @ w2 @ CHR ''-'' # w3 @ ds2 @ w4 @ [])
        = (0, out @ [range_text_node e])"
      using w(6) by (simp add: pre [OF s2(1)] rl_scan_white [OF w(6)] rl_chain_def del: append_Nil2)
    have b: "rl_scan t out None (w1 @ ds1 @ w2 @ CHR ''-'' # w3 @ ds2 @ w4 @ CHR '','' # rest)
        = rl_scan COMMA (out @ [range_text_node e]) None rest"
      by (simp add: pre [OF s2(2)] rl_scan_white [OF w(6)] rl_scan_comma rl_chain_def)
    show ?thesis using a b by (simp add: Range_text)
  qed
  show "rl_scan t out None (range_text_string e) = (0, out @ [range_text_node e])"
    using both by simp
  show "rl_scan t out None (range_text_string e @ CHR '','' # rest)
           = rl_scan COMMA (out @ [range_text_node e]) None rest"
    using both by simp
qed

lemma rl_scan_ranges:
  "es \<noteq> [] \<Longrightarrow> list_all range_text_ok es \<Longrightarrow> t \<noteq> DASH \<Longrightarrow>
   rl_scan t out None (ranges_string es) = (0, out @ map range_text_node es)"
proof (induction es arbitrary: t out rule: ranges_string.induct)
  case 1
  then show ?case by simp
next
  case (2 e)
  then show ?case by (simp add: rl_scan_range_text(1))
next
  case (3 e e' es)
  then have ok: "range_text_ok e" "list_all range_text_ok (e' # es)" by simp_all
  have "rl_scan t out None (ranges_string (e # e' # es))
      = rl_scan COMMA (out @ [range_text_node e]) None (ranges_string (e' # es))"
    using rl_scan_range_text(2) [OF ok(1) "3.prems"(3), of out "ranges_string (e' # es)"]
    by simp
  also have "\<dots> = (0, (out @ [range_text_node e]) @ map range_text_node (e' # es))"
    using "3.IH" [OF _ ok(2), of COMMA "out @ [range_text_node e]"] by simp
  finally show ?case by simp
qed

lemma range_text_string_digit: "range_text_ok e \<Longrightarrow> \<exists>c\<in>set (range_text_string e). isdigit c"
  by (cases e) (auto simp: digit_run_def list_all_iff neq_Nil_conv)

lemma ranges_string_digit:
  "es \<noteq> [] \<Longrightarrow> list_all range_text_ok es \<Longrightarrow> \<exists>c\<in>set (ranges_string es). isdigit c"
proof (induction es rule: ranges_string.induct)
  case 1
  then show ?case by simp
next
  case (2 e)
  then show ?case using range_text_string_digit [of e] by simp
next
  case (3 e e' es)
  then show ?case using range_text_string_digit [of e] by auto
qed

lemma rl_fromstring_ranges:
  assumes "es \<noteq> []" "list_all range_text_ok es"
  shows "rl_fromstring prior (ranges_string es) = (0, map range_text_node es)"
proof -
  obtain c where c: "c \<in> set (ranges_string es)" "isdigit c"
    using ranges_string_digit [OF assms] by blast
  have ne: "ranges_string es \<noteq> []" using c(1) by auto
  have "c \<noteq> CHR ''*''" using c(2) by (auto simp: isdigit_def)
  then have star: "ranges_string es \<noteq> ''*''" using c(1) by auto
  have "rl_scan NUMBER [] None (ranges_string es) = (0, map range_text_node es)"
    using rl_scan_ranges [OF assms, of NUMBER "[]"] by simp
  then show ?thesis using ne star assms(1) by (simp add: rl_fromstring_def)
qed


text \<open>
  Claim C8. \<open>rl_fromstring\<close> accepts every string made of runs of digits, single or joined
  in pairs by a dash, separated by commas, with white space around the runs, and returns
  the nodes the elements stand for, in their order; the string \<open>*\<close> alone gives the single
  node \<open>[0, 2^31 - 1]\<close>; the empty string gives the empty list and no error; a string whose
  last character other than white space is a dash, and a string that holds a character
  other than those (and is not the wildcard), give the error return.
\<close>

theorem rl_fromstring_accepts:
  "rl_fromstring prior ''*'' = (0, [RL 0 (2 ^ 31 - 1)])
   \<and> rl_fromstring prior [] = (0, [])
   \<and> (es \<noteq> [] \<and> list_all range_text_ok es
        \<longrightarrow> rl_fromstring prior (ranges_string es) = (0, map range_text_node es))
   \<and> ((\<forall>c\<in>set ws. isspace c) \<longrightarrow> fst (rl_fromstring prior (pre @ CHR ''-'' # ws)) = - 1)
   \<and> (\<not> isspace c \<and> \<not> isdigit c \<and> c \<noteq> CHR '','' \<and> c \<noteq> CHR ''-'' \<and> c \<noteq> CHR 0x00
        \<and> before @ c # post \<noteq> ''*''
      \<longrightarrow> fst (rl_fromstring prior (before @ c # post)) = - 1)"
proof (intro conjI impI)
  show "rl_fromstring prior ''*'' = (0, [RL 0 (2 ^ 31 - 1)])"
    by (simp add: rl_fromstring_def)
  show "rl_fromstring prior [] = (0, [])"
    by (simp add: rl_fromstring_def)
next
  assume "es \<noteq> [] \<and> list_all range_text_ok es"
  then show "rl_fromstring prior (ranges_string es) = (0, map range_text_node es)"
    using rl_fromstring_ranges [of es prior] by simp
next
  assume ws: "\<forall>c\<in>set ws. isspace c"
  have ne: "pre @ CHR ''-'' # ws \<noteq> ''*''"
    by (cases pre) auto
  show "fst (rl_fromstring prior (pre @ CHR ''-'' # ws)) = - 1"
    using rl_scan_trailing_dash [OF ws, of NUMBER "[]" None pre] ne
    by (simp add: rl_fromstring_fst)
next
  assume "\<not> isspace c \<and> \<not> isdigit c \<and> c \<noteq> CHR '','' \<and> c \<noteq> CHR ''-'' \<and> c \<noteq> CHR 0x00
        \<and> before @ c # post \<noteq> ''*''"
  then show "fst (rl_fromstring prior (before @ c # post)) = - 1"
    using rl_scan_stray [of c NUMBER "[]" None before post]
    by (simp add: rl_fromstring_fst)
qed

theorem rl_fromstring_accepts_witness:
  "ranges_string [Range_text '' '' ''1'' '' '' '' '' ''3'' '' '', Number_text '' '' ''5'' []]
     = '' 1 - 3 , 5''
   \<and> rl_fromstring [] '' 1 - 3 , 5'' = (0, [RL 1 3, RL 5 5])
   \<and> rl_fromstring [] ''7-2,010'' = (0, [RL 2 7, RL 10 10])
   \<and> fst (rl_fromstring [] ''1,2- '') = - 1
   \<and> fst (rl_fromstring [] ''1,x2'') = - 1"
proof -
  have d: "digits_value ''1'' = 1" "digits_value ''3'' = 3" "digits_value ''5'' = 5"
      "digits_value ''7'' = 7" "digits_value ''2'' = 2" "digits_value ''010'' = 10"
    by (simp_all add: digits_value_def)
  have ok: "list_all range_text_ok
        [Range_text '' '' ''1'' '' '' '' '' ''3'' '' '', Number_text '' '' ''5'' []]"
      "list_all range_text_ok [Range_text [] ''7'' [] [] ''2'' [], Number_text [] ''010'' []]"
    by (simp_all add: white_space_def digit_run_def isspace_def isdigit_def)
  show ?thesis
    using rl_fromstring_accepts [where prior = "[]" and ws = "'' ''" and pre = "''1,2''"
        and c = "CHR ''x''" and before = "''1,''" and post = "''2''"
        and es = "[Range_text '' '' ''1'' '' '' '' '' ''3'' '' '', Number_text '' '' ''5'' []]"]
      rl_fromstring_accepts [where prior = "[]" and ws = "[]" and pre = "[]"
        and c = "CHR ''x''" and before = "[]" and post = "[]"
        and es = "[Range_text [] ''7'' [] [] ''2'' [], Number_text [] ''010'' []]"]
      ok
    by (simp add: isspace_def isdigit_def d)
qed


section \<open>Properties of the signature state engine\<close>

subsection \<open>Evaluation of the example audit trails, line by line\<close>

lemma shared_key_line1:
  "process_line [] config_shared_key \<lparr>in_txn_id = 0, in_last_txn = [], in_tree = []\<rparr>
     (sl_read ''d|20250102|130000|u1|1001|1|10|0|8|1|1|1|x|x||u1|20|Signer||'' CHR ''|'')
   = shared_key_state1"
  by code_simp

lemma shared_key_line2:
  "map sig_summary (in_tree (process_line [] config_shared_key shared_key_state1
     (sl_read ''d|20250103|140000|u1|1001|1|10|0|8|1|1|1|x|x|u1||21|Cosigner||'' CHR ''|'')))
   = [(SIG_INVALIDATED, [True])]"
  by code_simp

lemma two_fields_line1:
  "process_line [] config_two_fields \<lparr>in_txn_id = 0, in_last_txn = [], in_tree = []\<rparr>
     (sl_read ''d|20250101|120000|u1|1001|1|11|0|7|2|1|1|x|x||42|12|Weight||'' CHR ''|'')
   = two_fields_state1"
  by code_simp

lemma two_fields_line2:
  "map node_plates_summary (in_tree (process_line [] config_two_fields two_fields_state1
     (sl_read ''d|20250102|130000|u1|1001|1|10|0|8|1|1|1|x|x||u1|20|Signer||'' CHR ''|'')))
   = [[(11, RECORD_NORMAL, [12])]]"
  by code_simp

subsection \<open>The DRF writer\<close>

lemma write_drf_loop_lines:
  "write_drf_loop tree =
     concat (map (\<lambda>n. if signatureStatus (esn_status n) = SIG_INVALIDATED
                          \<or> (signatureStatus (esn_status n) = SIG_COMPLETE
                              \<and> recStatus (esn_status n) = RECORD_NORMAL
                              \<and> changeStatus (esn_status n) = CHANGE_DECLINED)
                       then [dec_int (sint (esn_id n)) @ ''|'' @ dec_int (sint (esn_visit n)) @ ''|''
                             @ dec_int (sint (esc_sig_plate (esn_config n))) @ [CHR 0x0A]]
                       else []) tree)"
  by (induction tree) (simp_all add: fmt_lld_def fmt_d_def)

text \<open>
  Claim C1, as amended. When the output file can be opened, \<open>write_drf\<close> goes through the
  nodes in the order of the tree and writes for each node either one line or nothing: the
  line \<open>patient|visit|sigPlate\<close> (the three numbers of the node and of its configuration in
  signed decimal, ended by a newline) when the signature status is \<open>INVALIDATED\<close>, or is
  \<open>COMPLETE\<close> with record status \<open>NORMAL\<close> and change status \<open>DECLINED\<close>, and nothing
  otherwise. When the file cannot be opened it writes nothing and returns -1.
\<close>

theorem write_drf_emits:
  "write_drf True tree =
     (0, concat (map (\<lambda>n. if signatureStatus (esn_status n) = SIG_INVALIDATED
                              \<or> (signatureStatus (esn_status n) = SIG_COMPLETE
                                  \<and> recStatus (esn_status n) = RECORD_NORMAL
                                  \<and> changeStatus (esn_status n) = CHANGE_DECLINED)
                           then [dec_int (sint (esn_id n)) @ ''|'' @ dec_int (sint (esn_visit n))
                                 @ ''|'' @ dec_int (sint (esc_sig_plate (esn_config n)))
                                 @ [CHR 0x0A]]
                           else []) tree))
   \<and> write_drf False tree = (- 1, [])"
  by (simp add: write_drf_def write_drf_loop_lines)

theorem write_drf_emits_witness:
  "map sig_summary [shared_key_node1, esn_unsign shared_key_node1 20]
     = [(SIG_COMPLETE, [True]), (SIG_INVALIDATED, [False])]
   \<and> map (\<lambda>n. (recStatus (esn_status n), changeStatus (esn_status n)))
        [shared_key_node1, esn_unsign shared_key_node1 20]
     = [(RECORD_NORMAL, CHANGE_NONE), (RECORD_NORMAL, CHANGE_NONE)]
   \<and> write_drf True [shared_key_node1, esn_unsign shared_key_node1 20]
     = (0, [''1001|1|10'' @ [CHR 0x0A]])"
proof -
  have a: "map sig_summary [shared_key_node1, esn_unsign shared_key_node1 20]
     = [(SIG_COMPLETE, [True]), (SIG_INVALIDATED, [False])]"
    by code_simp
  have b: "map (\<lambda>n. (recStatus (esn_status n), changeStatus (esn_status n)))
        [shared_key_node1, esn_unsign shared_key_node1 20]
     = [(RECORD_NORMAL, CHANGE_NONE), (RECORD_NORMAL, CHANGE_NONE)]"
    by code_simp
  have c: "dec_int (sint (esn_id (esn_unsign shared_key_node1 20))) = ''1001''"
      "dec_int (sint (esn_visit (esn_unsign shared_key_node1 20))) = ''1''"
      "dec_int (sint (esc_sig_plate (esn_config (esn_unsign shared_key_node1 20)))) = ''10''"
    by code_simp+
  have d: "signatureStatus (esn_status shared_key_node1) = SIG_COMPLETE"
      "changeStatus (esn_status shared_key_node1) = CHANGE_NONE"
      "signatureStatus (esn_status (esn_unsign shared_key_node1 20)) = SIG_INVALIDATED"
    by code_simp+
  show ?thesis
    using write_drf_emits [of "[shared_key_node1, esn_unsign shared_key_node1 20]"] a b c d
    by simp
qed

text \<open>
  The claim as stated fails when the file cannot be opened: \<open>write_drf\<close> then returns -1
  before the loop, and the invalidated node, whose line is due, is not written.
\<close>

theorem write_drf_unopened_counterexample:
  "signatureStatus (esn_status (esn_unsign shared_key_node1 20)) = SIG_INVALIDATED
   \<and> write_drf False [esn_unsign shared_key_node1 20] = (- 1, [])"
  by code_simp

subsection \<open>Unsigning\<close>

lemma esn_unsign_loop_map:
  "esn_unsign_loop field fs =
     map (\<lambda>f. if sf_field f = field then f\<lparr>sf_completed := False, sf_value := Some []\<rparr> else f) fs"
  by (induction fs) simp_all

text \<open>
  Claim C9. \<open>esn_unsign\<close> clears \<open>completed\<close> and sets \<open>value\<close> to the empty string in the
  slots of the given field and leaves the other slots as they are; the signature status
  becomes \<open>INVALIDATED\<close> exactly when it was \<open>COMPLETE\<close> and is unchanged otherwise; the
  transaction id becomes 0; signer, date, time and the covered plates with their field
  changes are unchanged.
\<close>

theorem esn_unsign_frame:
  "esn_sig_fields (esn_unsign n field) =
     map (\<lambda>f. if sf_field f = field then f\<lparr>sf_completed := False, sf_value := Some []\<rparr> else f)
       (esn_sig_fields n)
   \<and> signatureStatus (esn_status (esn_unsign n field)) =
       (if signatureStatus (esn_status n) = SIG_COMPLETE then SIG_INVALIDATED
        else signatureStatus (esn_status n))
   \<and> esn_txn_id (esn_unsign n field) = 0
   \<and> esn_signer (esn_unsign n field) = esn_signer n
   \<and> esn_date (esn_unsign n field) = esn_date n
   \<and> esn_time (esn_unsign n field) = esn_time n
   \<and> esn_plates (esn_unsign n field) = esn_plates n"
  by (simp add: esn_unsign_def Let_def esn_unsign_loop_map)

theorem esn_unsign_frame_witness:
  "sig_summary shared_key_node1 = (SIG_COMPLETE, [True])
   \<and> sig_summary (esn_unsign shared_key_node1 20) = (SIG_INVALIDATED, [False])
   \<and> map sf_value (esn_sig_fields (esn_unsign shared_key_node1 20)) = [Some []]
   \<and> esn_txn_id (esn_unsign shared_key_node1 20) = 0
   \<and> esn_signer (esn_unsign shared_key_node1 20) = Some ''u1''"
  using esn_unsign_frame [of shared_key_node1 20]
  by (simp add: sig_summary_def shared_key_node1_def shared_key_state1_def)

subsection \<open>Signature status and completed signature fields\<close>

lemma esn_sign_loop_eq:
  "esn_sign_loop sl field fs c =
     (map (sign_mark sl field) fs,
      c + of_nat (length (filter sf_completed (map (sign_mark sl field) fs))))"
  by (induction fs arbitrary: c) (simp_all add: sign_mark_def Let_def)

lemma sign_mark_completed: "sf_completed f \<Longrightarrow> sf_completed (sign_mark sl field f)"
  by (simp add: sign_mark_def)

lemma sign_mark_field: "sf_field (sign_mark sl field f) = sf_field f"
  by (simp add: sign_mark_def)

lemma filter_all_length: "length (filter P xs) = length xs \<longleftrightarrow> list_all P xs"
proof
  assume eq: "length (filter P xs) = length xs"
  show "list_all P xs"
  proof (rule ccontr)
    assume "\<not> list_all P xs"
    then obtain x where "x \<in> set xs" "\<not> P x" by (auto simp: list_all_iff)
    then have "length (filter P xs) < length xs" by (rule length_filter_less)
    then show False using eq by simp
  qed
next
  assume "list_all P xs"
  then have "filter P xs = xs" by (simp add: list_all_iff)
  then show "length (filter P xs) = length xs" by simp
qed

lemma word32_count_eq:
  fixes k n :: nat
  assumes "k \<le> n" "n < 2 ^ 31"
  shows "(of_nat k :: 32 word) = of_nat n \<longleftrightarrow> k = n"
proof -
  have "n < 2 ^ 32" using assms(2) by simp
  moreover have "k < 2 ^ 32" using assms(1) calculation by simp
  ultimately show ?thesis by (simp add: word_of_nat_eq_iff take_bit_nat_eq_self)
qed

lemma sigfield_slots_not_completed: "f \<in> set (sigfield_slots r) \<Longrightarrow> \<not> sf_completed f"
  by (induction r) (auto simp: sigfield_slot_def)

lemma sint_of_nat_int:
  assumes "k < 2 ^ 31"
  shows "sint (of_nat k :: 32 word) = int k"
proof -
  have "int k < 2 ^ 31" using assms by (simp add: of_nat_less_numeral_power_cancel_iff)
  moreover have "- (2 ^ 31) \<le> int k" by (rule order_trans [of _ 0]) simp_all
  ultimately have "signed_take_bit 31 (int k) = int k"
    by (intro signed_take_bit_int_eq_self) simp_all
  then show ?thesis by (simp add: signed_of_nat)
qed

lemma node_inv_new:
  assumes "sig_fields_counted config"
  shows "node_inv config (new_node pid visit config)"
proof -
  let ?slots = "sigfield_slots (esc_sig_fields config)"
  have ne: "?slots \<noteq> []" using assms by (auto simp: sig_fields_counted_def)
  then obtain f where "f \<in> set ?slots" by (cases ?slots) auto
  then have nc: "\<not> list_all sf_completed ?slots"
    using sigfield_slots_not_completed by (auto simp: list_all_iff)
  have "sint (esc_n_sig_fields config) = int (length ?slots)"
    using assms sint_of_nat_int [of "length ?slots"] by (simp add: sig_fields_counted_def)
  then have "nat (sint (esc_n_sig_fields config)) - length ?slots = 0" by simp
  then show ?thesis
    using ne nc by (simp add: node_inv_def new_node_def esn_alloc_sigfields_def esn_alloc_def
        sig_consistent_def)
qed

lemma node_inv_sign:
  assumes cnt: "sig_fields_counted config" and inv: "node_inv config n"
  shows "node_inv config (esn_sign n sl field txn_id)"
proof -
  let ?fs = "map (sign_mark sl field) (esn_sig_fields n)"
  let ?k = "length (filter sf_completed ?fs)"
  let ?n = "length (sigfield_slots (esc_sig_fields config))"
  have len: "length ?fs = ?n"
    using inv by (auto simp: node_inv_def dest: arg_cong [where f = length])
  have kn: "?k \<le> ?n" using len length_filter_le [of sf_completed ?fs] by simp
  have n31: "?n < 2 ^ 31" and nsf: "esc_n_sig_fields config = of_nat ?n"
    using cnt by (simp_all add: sig_fields_counted_def)
  have full: "(of_nat ?k :: 32 word) = esc_n_sig_fields config \<longleftrightarrow> list_all sf_completed ?fs"
    using word32_count_eq [OF kn n31] filter_all_length [of sf_completed ?fs] len nsf by simp
  have cfg: "esn_config n = config" using inv by (simp add: node_inv_def)
  have fields: "map sf_field ?fs = map sf_field (sigfield_slots (esc_sig_fields config))"
    using inv by (simp add: node_inv_def sign_mark_field comp_def)
  have old: "signatureStatus (esn_status n) = SIG_COMPLETE \<Longrightarrow> list_all sf_completed ?fs"
    using inv by (auto simp: node_inv_def sig_consistent_def list_all_iff sign_mark_completed)
  show ?thesis
  proof (cases "list_all sf_completed ?fs")
    case True
    then show ?thesis
      using full cfg fields
      by (simp add: esn_sign_def esn_sign_loop_eq node_inv_def sig_consistent_def Let_def)
  next
    case False
    then have "signatureStatus (esn_status n) \<noteq> SIG_COMPLETE" using old by blast
    then show ?thesis
      using False full cfg fields
      by (simp add: esn_sign_def esn_sign_loop_eq node_inv_def sig_consistent_def Let_def)
  qed
qed


lemma esn_unsign_loop_field: "map sf_field (esn_unsign_loop field fs) = map sf_field fs"
  by (induction fs) simp_all

lemma esn_unsign_loop_clears:
  "field \<in> set (map sf_field fs) \<Longrightarrow> \<not> list_all sf_completed (esn_unsign_loop field fs)"
  by (induction fs) auto

lemma node_inv_unsign:
  assumes inv: "node_inv config n" and own: "op_own_field config (OpUnsign field)"
  shows "node_inv config (esn_unsign n field)"
proof -
  have "field \<in> set (map sf_field (esn_sig_fields n))"
    using inv own by (simp add: node_inv_def)
  then have "\<not> list_all sf_completed (esn_unsign_loop field (esn_sig_fields n))"
    by (rule esn_unsign_loop_clears)
  then show ?thesis
    using inv
    by (simp add: esn_unsign_def node_inv_def sig_consistent_def Let_def esn_unsign_loop_field)
qed

lemma node_inv_datachange:
  "node_inv config n \<Longrightarrow> node_inv config (esn_datachange exclusions n sl plate field txn_id)"
  by (simp add: esn_datachange_def node_inv_def sig_consistent_def Let_def split: prod.split)

lemma node_inv_free:
  "node_inv config n \<Longrightarrow> node_inv config (esn_free_signed_values n txn_id)"
  by (simp add: esn_free_signed_values_def node_inv_def sig_consistent_def)

lemma node_inv_seen:
  "node_inv config n \<Longrightarrow> node_inv config (esn_sig_rec_seen n)"
  by (simp add: esn_sig_rec_seen_def node_inv_def sig_consistent_def)

lemma node_inv_apply_op:
  assumes "sig_fields_counted config" "node_inv config n" "op_own_field config x"
  shows "node_inv config (apply_op n x)"
  using assms
  by (cases x) (simp_all add: node_inv_sign node_inv_unsign node_inv_datachange node_inv_free
      node_inv_seen)

lemma node_inv_ops:
  assumes "sig_fields_counted config"
  shows "node_inv config n \<Longrightarrow> list_all (op_own_field config) ops
    \<Longrightarrow> node_inv config (foldl apply_op n ops)"
proof (induction ops arbitrary: n)
  case Nil
  then show ?case by simp
next
  case (Cons x ops)
  then show ?case using node_inv_apply_op [OF assms] by simp
qed

lemma ops_consistent:
  assumes "sig_fields_counted config" and "list_all (op_own_field config) ops"
  shows "sig_consistent (foldl apply_op (new_node pid visit config) ops)"
  using node_inv_ops [OF assms(1) node_inv_new [OF assms(1)] assms(2)]
  by (simp add: node_inv_def)

text \<open>The records that the grammar builds for a signature count its signature fields.\<close>

lemma rl_dup_id: "rl_dup r = r"
  by (induction r) simp_all

lemma sint_ucast_int_range:
  fixes w :: "64 word"
  assumes "- (2 ^ 31) \<le> sint w" "sint w < 2 ^ 31"
  shows "sint (ucast w :: 32 word) = sint w"
proof -
  have "(ucast (word_of_int (sint w) :: 64 word) :: 32 word) = word_of_int (sint w)"
    by (rule ucast_down_wi) (simp add: is_down)
  then have "(ucast w :: 32 word) = word_of_int (sint w)" by simp
  moreover have "signed_take_bit 31 (sint w) = sint w"
    using assms by (intro signed_take_bit_int_eq_self) simp_all
  ultimately show ?thesis by (simp add: signed_scast_eq)
qed

lemma rl_width_slots:
  "rl_canonical r \<Longrightarrow> rl_int_bounds r \<Longrightarrow> rl_width r = of_nat (length (sigfield_slots r))"
proof (induction r)
  case Nil
  show ?case by (simp add: rl_width_def)
next
  case (Cons e es)
  have le: "sint (min_of e) \<le> sint (max_of e)"
    using Cons.prems(1) by (simp add: rl_canonical_def)
  have lo: "- (2 ^ 31) \<le> sint (min_of e)" and hi: "sint (max_of e) < 2 ^ 31"
    using Cons.prems(2) by (simp_all add: rl_int_bounds_def)
  have "sint (min_of e) < 2 ^ 31" using le hi by simp
  then have tr: "sint (ucast (min_of e) :: 32 word) = sint (min_of e)"
    using lo by (intro sint_ucast_int_range) simp_all
  have IH: "rl_width es = of_nat (length (sigfield_slots es))"
    using Cons by (simp add: rl_canonical_def rl_int_bounds_def)
  have "length (sigfield_slots (e # es))
      = nat (sint (max_of e) - sint (min_of e) + 1) + length (sigfield_slots es)"
    by (simp add: tr)
  then have "(of_nat (length (sigfield_slots (e # es))) :: 64 word)
      = of_nat (nat (sint (max_of e) - sint (min_of e) + 1)) + of_nat (length (sigfield_slots es))"
    by simp
  also have "\<dots> = (max_of e - min_of e + 1) + rl_width es"
    using le IH by (simp only: word_of_interval_card)
  finally show ?case by (simp add: rl_width_Cons)
qed

lemma sigfield_slots_nonempty:
  assumes "rl_canonical r" "rl_int_bounds r" "r \<noteq> []"
  shows "0 < length (sigfield_slots r)"
proof -
  obtain e es where r: "r = e # es" using assms(3) by (cases r) auto
  have le: "sint (min_of e) \<le> sint (max_of e)"
    using assms(1) by (simp add: rl_canonical_def r)
  have lo: "- (2 ^ 31) \<le> sint (min_of e)" and hi: "sint (max_of e) < 2 ^ 31"
    using assms(2) by (simp_all add: rl_int_bounds_def r)
  have "sint (min_of e) < 2 ^ 31" using le hi by simp
  then have tr: "sint (ucast (min_of e) :: 32 word) = sint (min_of e)"
    using lo by (intro sint_ucast_int_range) simp_all
  show ?thesis using le by (simp add: r tr)
qed

lemma ucast_of_nat_32: "(ucast (of_nat n :: 64 word) :: 32 word) = of_nat n"
proof -
  have "(ucast (word_of_int (int n) :: 64 word) :: 32 word) = word_of_int (int n)"
    by (rule ucast_down_wi) (simp add: is_down)
  then show ?thesis by simp
qed

lemma signature_counts_fields:
  assumes "rl_canonical r" "rl_int_bounds r" "r \<noteq> []" "length (sigfield_slots r) < 2 ^ 31"
    and "c \<in> set (signature (sig_config serial s2 n4 r6 r) plates)"
  shows "sig_fields_counted c"
proof -
  have "esc_sig_fields c = r" "esc_n_sig_fields c = ucast (rl_width r)"
    using assms(5) by (auto simp: signature_def sig_config_def rl_dup_id)
  then show ?thesis
    using rl_width_slots [OF assms(1,2)] sigfield_slots_nonempty [OF assms(1-3)] assms(4)
    by (simp add: sig_fields_counted_def ucast_of_nat_32)
qed

text \<open>The invariant of the nodes of the tree built by \<open>process_input\<close>.\<close>

lemma sint_scast_field: "sint (scast (field :: 32 word) :: 64 word) = sint field"
proof -
  have "- (2 ^ 31) \<le> sint field" using sint_ge [of field] by simp
  then have lo: "- (2 ^ 63) \<le> sint field" by (rule order_trans [rotated]) simp
  have "sint field < 2 ^ 31" using sint_lt [of field] by simp
  then have hi: "sint field < 2 ^ 63" by (rule less_trans) simp
  have "signed_take_bit 63 (sint field) = sint field"
    using lo hi by (intro signed_take_bit_int_eq_self) simp_all
  then show ?thesis by (simp add: signed_scast_eq)
qed

lemma contains_own_field:
  "rl_int_bounds r \<Longrightarrow> rl_contains r (scast field) \<Longrightarrow>
   field \<in> set (map sf_field (sigfield_slots r))"
proof (induction r)
  case Nil
  then show ?case by simp
next
  case (Cons e es)
  show ?case
  proof (cases "sint (min_of e) \<le> sint field \<and> sint field \<le> sint (max_of e)")
    case True
    have lo: "- (2 ^ 31) \<le> sint (min_of e)"
      using Cons.prems(1) by (simp add: rl_int_bounds_def)
    have "sint field < 2 ^ 31" using sint_lt [of field] by simp
    then have "sint (min_of e) < 2 ^ 31" using True by simp
    then have tr: "sint (ucast (min_of e) :: 32 word) = sint (min_of e)"
      using lo by (intro sint_ucast_int_range) simp_all
    have "sf_field (sigfield_slot (sint field)) = field"
      by (simp add: sigfield_slot_def)
    moreover have "sint field \<in> set [sint (ucast (min_of e) :: 32 word) .. sint (max_of e)]"
      using True tr by simp
    ultimately have "field \<in> (\<lambda>x. sf_field (sigfield_slot x)) `
        set [sint (ucast (min_of e) :: 32 word) .. sint (max_of e)]"
      by (metis imageI)
    then show ?thesis by (simp add: image_Un comp_def)
  next
    case False
    then have "rl_contains es (scast field)"
      using Cons.prems(2) by (simp add: sint_scast_field split: if_splits)
    then have "field \<in> set (map sf_field (sigfield_slots es))"
      using Cons by (simp add: rl_int_bounds_def)
    then show ?thesis by (simp add: image_Un)
  qed
qed

lemma esn_compare_eq_key:
  "esn_compare a b = 0 \<Longrightarrow> same_node_key (esn_config a) (esn_config b)"
  by (auto simp: esn_compare_def same_node_key_def Let_def signed_word_eqI split: if_splits)

lemma rb_insert_found:
  "fst (rb_insert cmp x xs) = Some e \<Longrightarrow> e \<in> set xs \<and> cmp x e = 0 \<and> snd (rb_insert cmp x xs) = xs"
  by (induction xs) (auto split: if_splits prod.splits)

lemma rb_update_subset: "set (rb_update cmp x xs) \<subseteq> insert x (set xs)"
  by (induction xs) auto

lemma rb_update_inserted:
  assumes same: "\<And>y. cmp x2 y = cmp x y" and self: "cmp x2 x = 0"
  shows "fst (rb_insert cmp x xs) = None \<Longrightarrow>
         set (rb_update cmp x2 (snd (rb_insert cmp x xs))) \<subseteq> insert x2 (set xs)"
proof (induction xs)
  case Nil
  then show ?case using self by simp
next
  case (Cons y ys)
  show ?case
  proof (cases "cmp x y < 0")
    case True
    then show ?thesis using self by auto
  next
    case False
    then have pos: "cmp x y > 0" using Cons.prems by (auto split: if_splits prod.splits)
    then have "fst (rb_insert cmp x ys) = None"
      using Cons.prems by (auto split: if_splits prod.splits)
    then have "set (rb_update cmp x2 (snd (rb_insert cmp x ys))) \<subseteq> insert x2 (set ys)"
      by (rule Cons.IH)
    then show ?thesis using pos same [of y] by (auto split: prod.splits)
  qed
qed

lemma node_inv_config: "node_inv c n \<Longrightarrow> esn_config n = c"
  by (simp add: node_inv_def)

lemma dispatch_event_inv:
  assumes cnt: "sig_fields_counted c" and bnd: "rl_int_bounds (esc_sig_fields c)"
    and same: "esc_sig_fields esc = esc_sig_fields c" and inv: "node_inv c esn"
  shows "node_inv c (dispatch_event e sl plate field rec_status txn_id esc esn)"
proof -
  define esn1 where
    "esn1 = (if plate = esc_sig_plate esc \<and> rec_status \<noteq> 0 then esn_sig_rec_seen esn else esn)"
  have inv1: "node_inv c esn1" using inv by (simp add: esn1_def node_inv_seen)
  have unfold: "dispatch_event e sl plate field rec_status txn_id esc esn =
     (if plate = esc_sig_plate esc \<and> rl_contains (esc_sig_fields esc) (scast field)
      then (if sl_value sl AUDITREC_NEWVALUE \<noteq> []
            then esn_free_signed_values (esn_sign esn1 sl field txn_id) txn_id
            else esn_unsign esn1 field)
      else esn_datachange e esn1 sl plate field txn_id)"
    by (simp add: dispatch_event_def esn1_def Let_def)
  show ?thesis
  proof (cases "plate = esc_sig_plate esc \<and> rl_contains (esc_sig_fields esc) (scast field)")
    case True
    then have "field \<in> set (map sf_field (sigfield_slots (esc_sig_fields c)))"
      using contains_own_field [OF bnd, of field] same by simp
    then have own: "op_own_field c (OpUnsign field)" by simp
    have "node_inv c (esn_free_signed_values (esn_sign esn1 sl field txn_id) txn_id)"
      by (intro node_inv_free node_inv_sign cnt inv1)
    moreover have "node_inv c (esn_unsign esn1 field)"
      using inv1 own by (rule node_inv_unsign)
    ultimately show ?thesis unfolding unfold using True by simp
  next
    case False
    have "node_inv c (esn_datachange e esn1 sl plate field txn_id)"
      using inv1 by (rule node_inv_datachange)
    then show ?thesis unfolding unfold using False by auto
  qed
qed

lemma esn_sign_key:
  "esn_id (esn_sign n sl field txn_id) = esn_id n
   \<and> esn_visit (esn_sign n sl field txn_id) = esn_visit n
   \<and> esn_config (esn_sign n sl field txn_id) = esn_config n"
  by (simp add: esn_sign_def Let_def split: prod.split)

lemma esn_datachange_key:
  "esn_id (esn_datachange e n sl plate field txn_id) = esn_id n
   \<and> esn_visit (esn_datachange e n sl plate field txn_id) = esn_visit n
   \<and> esn_config (esn_datachange e n sl plate field txn_id) = esn_config n"
  by (simp add: esn_datachange_def Let_def split: prod.split)

lemma dispatch_event_key:
  "esn_id (dispatch_event e sl plate field rec_status txn_id esc esn) = esn_id esn
   \<and> esn_visit (dispatch_event e sl plate field rec_status txn_id esc esn) = esn_visit esn
   \<and> esn_config (dispatch_event e sl plate field rec_status txn_id esc esn) = esn_config esn"
  by (simp add: dispatch_event_def Let_def esn_sign_key esn_datachange_key
      esn_free_signed_values_def esn_unsign_def esn_sig_rec_seen_def)

lemma esn_compare_key:
  "esn_id a = esn_id b \<Longrightarrow> esn_visit a = esn_visit b \<Longrightarrow> esn_config a = esn_config b \<Longrightarrow>
   esn_compare a y = esn_compare b y"
  by (simp add: esn_compare_def Let_def cong: if_cong)

lemma esn_compare_refl:
  "esn_id a = esn_id b \<Longrightarrow> esn_visit a = esn_visit b \<Longrightarrow> esn_config a = esn_config b \<Longrightarrow>
   esn_compare a b = 0"
  by (simp add: esn_compare_def Let_def cong: if_cong)

lemma process_config_tree_inv:
  assumes ok: "list_all cfg_record_ok cfg" and agree: "cfg_keys_agree cfg"
    and esc: "esc \<in> set cfg" and inv: "tree_inv cfg tree"
  shows "tree_inv cfg (process_config e sl pid visit plate field rec_status txn_id tree esc)"
proof (cases "config_applies esc plate visit field")
  case False
  then show ?thesis using inv by (simp add: process_config_def)
next
  case True
  let ?new = "esn_alloc pid visit esc"
  have esc_ok: "sig_fields_counted esc" "rl_int_bounds (esc_sig_fields esc)"
    using ok esc by (auto simp: list_all_iff cfg_record_ok_def)
  show ?thesis
  proof (cases "fst (rb_insert esn_compare ?new tree)")
    case None
    let ?esn = "esn_alloc_sigfields ?new"
    let ?esn2 = "dispatch_event e sl plate field rec_status txn_id esc ?esn"
    have "node_inv esc ?esn"
      using node_inv_new [OF esc_ok(1), of pid visit] by (simp add: new_node_def)
    then have inv2: "node_inv esc ?esn2"
      by (intro dispatch_event_inv esc_ok) simp_all
    have key: "esn_id ?esn2 = esn_id ?new" "esn_visit ?esn2 = esn_visit ?new"
        "esn_config ?esn2 = esn_config ?new"
      by (simp_all add: dispatch_event_key esn_alloc_sigfields_def esn_alloc_def)
    have "set (rb_update esn_compare ?esn2 (snd (rb_insert esn_compare ?new tree)))
        \<subseteq> insert ?esn2 (set tree)"
      using None
      by (intro rb_update_inserted esn_compare_key esn_compare_refl key)
    moreover have "esn_config ?esn2 \<in> set cfg \<and> node_inv (esn_config ?esn2) ?esn2"
      using inv2 esc node_inv_config [OF inv2] by simp
    ultimately have "tree_inv cfg (rb_update esn_compare ?esn2 (snd (rb_insert esn_compare ?new tree)))"
      using inv unfolding tree_inv_def by blast
    then show ?thesis
      using True None by (simp add: process_config_def case_prod_beta)
  next
    case (Some e0)
    let ?esn2 = "dispatch_event e sl plate field rec_status txn_id esc e0"
    have found: "e0 \<in> set tree" "esn_compare ?new e0 = 0"
        "snd (rb_insert esn_compare ?new tree) = tree"
      using rb_insert_found [OF Some] by simp_all
    have e0: "esn_config e0 \<in> set cfg" "node_inv (esn_config e0) e0"
      using inv found(1) by (simp_all add: tree_inv_def)
    have "same_node_key esc (esn_config e0)"
      using esn_compare_eq_key [OF found(2)] by (simp add: esn_alloc_def)
    then have same: "esc_sig_fields esc = esc_sig_fields (esn_config e0)"
      using agree esc e0(1) by (auto simp: cfg_keys_agree_def list_all_iff)
    have c0: "sig_fields_counted (esn_config e0)" "rl_int_bounds (esc_sig_fields (esn_config e0))"
      using ok e0(1) by (auto simp: list_all_iff cfg_record_ok_def)
    have inv2: "node_inv (esn_config e0) ?esn2"
      using c0 same e0(2) by (rule dispatch_event_inv)
    have "set (rb_update esn_compare ?esn2 tree) \<subseteq> insert ?esn2 (set tree)"
      by (rule rb_update_subset)
    moreover have "esn_config ?esn2 \<in> set cfg \<and> node_inv (esn_config ?esn2) ?esn2"
      using inv2 e0(1) node_inv_config [OF inv2] by simp
    ultimately have "tree_inv cfg (rb_update esn_compare ?esn2 tree)"
      using inv unfolding tree_inv_def by blast
    then show ?thesis
      using True Some found(3) by (simp add: process_config_def case_prod_beta)
  qed
qed

lemma foldl_process_config_tree_inv:
  assumes ok: "list_all cfg_record_ok cfg" and agree: "cfg_keys_agree cfg"
  shows "set cs \<subseteq> set cfg \<Longrightarrow> tree_inv cfg tree \<Longrightarrow>
    tree_inv cfg (foldl (process_config e sl pid visit plate field rec_status txn_id) tree cs)"
proof (induction cs arbitrary: tree)
  case Nil
  then show ?case by simp
next
  case (Cons c cs)
  have "tree_inv cfg (process_config e sl pid visit plate field rec_status txn_id tree c)"
    using Cons.prems by (intro process_config_tree_inv ok agree) simp_all
  then show ?case using Cons by simp
qed

lemma process_line_tree_inv:
  assumes ok: "list_all cfg_record_ok cfg" and agree: "cfg_keys_agree cfg"
    and inv: "tree_inv cfg (in_tree st)"
  shows "tree_inv cfg (in_tree (process_line e cfg st sl))"
  using inv foldl_process_config_tree_inv [OF ok agree, of cfg]
  by (simp add: process_line_def Let_def)

lemma process_lines_tree_inv:
  assumes ok: "list_all cfg_record_ok cfg" and agree: "cfg_keys_agree cfg"
  shows "tree_inv cfg (in_tree st) \<Longrightarrow>
    tree_inv cfg (in_tree (foldl (process_line e cfg) st lines))"
proof (induction lines arbitrary: st)
  case Nil
  then show ?case by simp
next
  case (Cons sl lines)
  then show ?case using process_line_tree_inv [OF ok agree] by simp
qed

lemma process_input_consistent:
  assumes "list_all cfg_record_ok cfg" and "cfg_keys_agree cfg"
  shows "list_all sig_consistent (in_tree (process_input e cfg [] lines))"
proof -
  have "tree_inv cfg (in_tree (process_input e cfg [] lines))"
    unfolding process_input_def
    by (rule process_lines_tree_inv [OF assms]) (simp add: tree_inv_def)
  then show ?thesis by (simp add: tree_inv_def node_inv_def list_all_iff)
qed

text \<open>
  Claim C2, as amended. Provided that every configuration record counts its signature
  fields and that records which give their nodes the same key have the same signature
  fields, every node of the tree that \<open>process_input\<close> builds from any audit trail has
  signature status \<open>COMPLETE\<close> exactly when all its signature fields are completed. At the
  level of the operations: the node created for a configuration that counts its signature
  fields, and every node reached from it by marking the record seen, signing, freeing
  signed values, data changes, and unsigning one of the node's own signature fields has
  signature status \<open>COMPLETE\<close> exactly when all its signature fields are completed.
\<close>

theorem sig_complete_iff_fields:
  "(list_all cfg_record_ok cfg \<and> cfg_keys_agree cfg
      \<longrightarrow> list_all sig_consistent (in_tree (process_input e cfg [] lines)))
   \<and> (sig_fields_counted config \<and> list_all (op_own_field config) ops
      \<longrightarrow> sig_consistent (foldl apply_op (new_node pid visit config) ops))"
  using process_input_consistent [of cfg e lines] ops_consistent [of config ops pid visit]
  by blast

text \<open>The records of the example configurations, and the conditions they meet.\<close>

lemmas grammar_defs =
  signature_def sig_config_def plate_defn_def esc_alloc_def plate_config_more_def config_more_def
  range_element_pair_def range_element_single_def visit_range_wildcard_def rl_addtofront_def
  rl_width_def

lemma config_two_fields_records:
  "config_two_fields =
     [\<lparr>esc_plate = 11, esc_ignore_fields = [], esc_visits = [RL 0 65535], esc_sig_plate = 10,
       esc_n_sig_fields = 2, esc_sig_fields = [RL 20 21], esc_name = Some ''A'', esc_serial = 3\<rparr>,
      \<lparr>esc_plate = 10, esc_ignore_fields = [], esc_visits = [RL 0 65535], esc_sig_plate = 10,
       esc_n_sig_fields = 2, esc_sig_fields = [RL 20 21], esc_name = Some ''A'', esc_serial = 2\<rparr>]"
  by (simp add: config_two_fields_def grammar_defs)

lemma config_shared_key_records:
  "config_shared_key =
     [\<lparr>esc_plate = 10, esc_ignore_fields = [], esc_visits = [RL 0 65535], esc_sig_plate = 10,
       esc_n_sig_fields = 1, esc_sig_fields = [RL 20 20], esc_name = Some ''A'', esc_serial = 2\<rparr>,
      \<lparr>esc_plate = 10, esc_ignore_fields = [], esc_visits = [RL 0 65535], esc_sig_plate = 10,
       esc_n_sig_fields = 2, esc_sig_fields = [RL 20 21], esc_name = Some ''B'', esc_serial = 4\<rparr>]"
  by (simp add: config_shared_key_def grammar_defs)

lemma two_fields_ok: "list_all cfg_record_ok config_two_fields"
  by (simp add: config_two_fields_records cfg_record_ok_def sig_fields_counted_def
      rl_int_bounds_def sigfield_slot_def)

lemma two_fields_agree: "cfg_keys_agree config_two_fields"
  by (simp add: config_two_fields_records cfg_keys_agree_def same_node_key_def)

lemma shared_key_ok: "list_all cfg_record_ok config_shared_key"
  by (simp add: config_shared_key_records cfg_record_ok_def sig_fields_counted_def
      rl_int_bounds_def sigfield_slot_def)

lemma shared_key_disagree: "\<not> cfg_keys_agree config_shared_key"
  by (simp add: config_shared_key_records cfg_keys_agree_def same_node_key_def rl_min_def)

lemma two_fields_line2_sig:
  "map sig_summary (in_tree (process_line [] config_two_fields two_fields_state1
     (sl_read ''d|20250102|130000|u1|1001|1|10|0|8|1|1|1|x|x||u1|20|Signer||'' CHR ''|'')))
   = [(SIG_NONE, [True, False])]"
  by code_simp

theorem sig_complete_iff_fields_witness:
  "list_all cfg_record_ok config_two_fields \<and> cfg_keys_agree config_two_fields
   \<and> map sig_summary (in_tree (process_input [] config_two_fields []
        (audit_lines [''d|20250101|120000|u1|1001|1|11|0|7|2|1|1|x|x||42|12|Weight||'', ''d|20250102|130000|u1|1001|1|10|0|8|1|1|1|x|x||u1|20|Signer||''])))
      = [(SIG_NONE, [True, False])]
   \<and> list_all sig_consistent (in_tree (process_input [] config_two_fields []
        (audit_lines [''d|20250101|120000|u1|1001|1|11|0|7|2|1|1|x|x||42|12|Weight||'', ''d|20250102|130000|u1|1001|1|10|0|8|1|1|1|x|x||u1|20|Signer||''])))
   \<and> sig_fields_counted two_fields_record
   \<and> list_all (op_own_field two_fields_record)
       [OpSign (sl_read ''d|20250102|130000|u1|1001|1|10|0|8|1|1|1|x|x||u1|20|Signer||'' CHR ''|'') 20 2, OpSign (sl_read ''d|20250102|130000|u1|1001|1|10|0|8|1|1|1|x|x||u1|20|Signer||'' CHR ''|'') 21 2,
        OpFreeSignedValues 2, OpUnsign 20]
   \<and> sig_summary (foldl apply_op (new_node 1001 1 two_fields_record)
       [OpSign (sl_read ''d|20250102|130000|u1|1001|1|10|0|8|1|1|1|x|x||u1|20|Signer||'' CHR ''|'') 20 2, OpSign (sl_read ''d|20250102|130000|u1|1001|1|10|0|8|1|1|1|x|x||u1|20|Signer||'' CHR ''|'') 21 2,
        OpFreeSignedValues 2, OpUnsign 20])
     = (SIG_INVALIDATED, [False, True])
   \<and> sig_consistent (foldl apply_op (new_node 1001 1 two_fields_record)
       [OpSign (sl_read ''d|20250102|130000|u1|1001|1|10|0|8|1|1|1|x|x||u1|20|Signer||'' CHR ''|'') 20 2, OpSign (sl_read ''d|20250102|130000|u1|1001|1|10|0|8|1|1|1|x|x||u1|20|Signer||'' CHR ''|'') 21 2,
        OpFreeSignedValues 2, OpUnsign 20])"
proof -
  have a: "sig_fields_counted two_fields_record"
    by (simp add: sig_fields_counted_def two_fields_record_def two_fields_node1_def
        sigfield_slot_def)
  have b: "list_all (op_own_field two_fields_record)
       [OpSign (sl_read ''d|20250102|130000|u1|1001|1|10|0|8|1|1|1|x|x||u1|20|Signer||'' CHR ''|'') 20 2, OpSign (sl_read ''d|20250102|130000|u1|1001|1|10|0|8|1|1|1|x|x||u1|20|Signer||'' CHR ''|'') 21 2,
        OpFreeSignedValues 2, OpUnsign 20]"
    by (simp add: two_fields_record_def two_fields_node1_def sigfield_slot_def)
  have c: "sig_summary (foldl apply_op (new_node 1001 1 two_fields_record)
       [OpSign (sl_read ''d|20250102|130000|u1|1001|1|10|0|8|1|1|1|x|x||u1|20|Signer||'' CHR ''|'') 20 2, OpSign (sl_read ''d|20250102|130000|u1|1001|1|10|0|8|1|1|1|x|x||u1|20|Signer||'' CHR ''|'') 21 2,
        OpFreeSignedValues 2, OpUnsign 20])
     = (SIG_INVALIDATED, [False, True])"
    by code_simp
  have d: "list_all cfg_record_ok config_two_fields"
    by (rule two_fields_ok)
  have f: "cfg_keys_agree config_two_fields"
    by (rule two_fields_agree)
  have g: "map sig_summary (in_tree (process_input [] config_two_fields []
        (audit_lines [''d|20250101|120000|u1|1001|1|11|0|7|2|1|1|x|x||42|12|Weight||'', ''d|20250102|130000|u1|1001|1|10|0|8|1|1|1|x|x||u1|20|Signer||''])))
      = [(SIG_NONE, [True, False])]"
    by (simp add: process_input_def audit_lines_def two_fields_line1 two_fields_line2_sig)
  show ?thesis
    using sig_complete_iff_fields [of config_two_fields "[]"
        "audit_lines [''d|20250101|120000|u1|1001|1|11|0|7|2|1|1|x|x||42|12|Weight||'', ''d|20250102|130000|u1|1001|1|10|0|8|1|1|1|x|x||u1|20|Signer||'']"
        two_fields_record
        "[OpSign (sl_read ''d|20250102|130000|u1|1001|1|10|0|8|1|1|1|x|x||u1|20|Signer||'' CHR ''|'') 20 2, OpSign (sl_read ''d|20250102|130000|u1|1001|1|10|0|8|1|1|1|x|x||u1|20|Signer||'' CHR ''|'') 21 2, OpFreeSignedValues 2, OpUnsign 20]"
        1001 1]
      a b c d f g
    by blast
qed

lemma sig_consistent_summary:
  "sig_consistent n \<longleftrightarrow> ((fst (sig_summary n) = SIG_COMPLETE) = list_all (\<lambda>b. b) (snd (sig_summary n)))"
  by (simp add: sig_consistent_def sig_summary_def list_all_iff)

lemma list_all_sig_consistent:
  "list_all sig_consistent tree \<longleftrightarrow>
   list_all (\<lambda>s. (fst s = SIG_COMPLETE) = list_all (\<lambda>b. b) (snd s)) (map sig_summary tree)"
  by (simp add: list_all_iff sig_consistent_summary)

text \<open>
  The claim as stated fails when two signatures give their nodes the same key (same plate,
  same first signature field) and differ in their fields. The first line signs field 20, which
  completes the node of signature A; the second line clears field 21, a signature field of
  B only: \<open>process_input\<close> calls \<open>esn_unsign\<close> on the shared node, no slot matches, and the
  status becomes \<open>INVALIDATED\<close> while the only signature field stays completed.
\<close>

theorem sig_status_shared_key_counterexample:
  "list_all cfg_record_ok config_shared_key \<and> \<not> cfg_keys_agree config_shared_key
   \<and> map sig_summary (in_tree (process_input [] config_shared_key []
      (audit_lines [''d|20250102|130000|u1|1001|1|10|0|8|1|1|1|x|x||u1|20|Signer||'', ''d|20250103|140000|u1|1001|1|10|0|8|1|1|1|x|x|u1||21|Cosigner||''])))
     = [(SIG_INVALIDATED, [True])]
   \<and> \<not> list_all sig_consistent (in_tree (process_input [] config_shared_key []
      (audit_lines [''d|20250102|130000|u1|1001|1|10|0|8|1|1|1|x|x||u1|20|Signer||'', ''d|20250103|140000|u1|1001|1|10|0|8|1|1|1|x|x|u1||21|Cosigner||''])))"
proof -
  have "map sig_summary (in_tree (process_input [] config_shared_key []
      (audit_lines [''d|20250102|130000|u1|1001|1|10|0|8|1|1|1|x|x||u1|20|Signer||'', ''d|20250103|140000|u1|1001|1|10|0|8|1|1|1|x|x|u1||21|Cosigner||''])))
     = [(SIG_INVALIDATED, [True])]"
    by (simp add: process_input_def audit_lines_def shared_key_line1 shared_key_line2)
  moreover have "list_all cfg_record_ok config_shared_key" by (rule shared_key_ok)
  moreover have "\<not> cfg_keys_agree config_shared_key" by (rule shared_key_disagree)
  ultimately show ?thesis by (simp add: list_all_sig_consistent)
qed

subsection \<open>Freeing the values covered by a signature\<close>

text \<open>
  Claim C3, as amended. After \<open>esn_free_signed_values n txn_id\<close> with \<open>txn_id\<close> the
  transaction id of the node, every covered plate of the node has no field change, record
  status \<open>NORMAL\<close> and change status \<open>NONE\<close>, and the node covers the same plates; with any
  other transaction id the node is unchanged.
\<close>

theorem esn_free_signed_values_clears:
  "(esn_txn_id n = txn_id \<longrightarrow> list_all cp_cleared (esn_plates (esn_free_signed_values n txn_id))
       \<and> map cp_plate (esn_plates (esn_free_signed_values n txn_id)) = map cp_plate (esn_plates n))
   \<and> (esn_txn_id n \<noteq> txn_id \<longrightarrow> esn_free_signed_values n txn_id = n)"
  by (simp add: esn_free_signed_values_def list_all_iff cp_cleared_def cp_free_changes_def)

theorem esn_free_signed_values_clears_witness:
  "esn_txn_id (two_fields_node1\<lparr>esn_txn_id := 2\<rparr>) = 2
   \<and> \<not> list_all cp_cleared (esn_plates (two_fields_node1\<lparr>esn_txn_id := 2\<rparr>))
   \<and> list_all cp_cleared (esn_plates (esn_free_signed_values (two_fields_node1\<lparr>esn_txn_id := 2\<rparr>) 2))
   \<and> esn_free_signed_values two_fields_node1 2 = two_fields_node1"
proof -
  have a: "\<not> list_all cp_cleared (esn_plates (two_fields_node1\<lparr>esn_txn_id := 2\<rparr>))"
    by (simp add: two_fields_node1_def cp_cleared_def)
  have b: "esn_txn_id two_fields_node1 \<noteq> 2"
    by (simp add: two_fields_node1_def)
  show ?thesis
    using esn_free_signed_values_clears [of "two_fields_node1\<lparr>esn_txn_id := 2\<rparr>" 2]
      esn_free_signed_values_clears [of two_fields_node1 2] a b
    by simp
qed

text \<open>
  The claim as stated fails when the call does not belong to the signing transaction.
  With two signature fields, a data change on plate 11 followed by the signing of field 20
  alone leaves the node incomplete, its transaction id 0; \<open>process_input\<close> calls
  \<open>esn_free_signed_values\<close> with transaction 2, and plate 11 keeps its field change.
\<close>

theorem free_signed_values_other_txn_counterexample:
  "in_tree (process_line [] config_two_fields \<lparr>in_txn_id = 0, in_last_txn = [], in_tree = []\<rparr> (sl_read ''d|20250101|120000|u1|1001|1|11|0|7|2|1|1|x|x||42|12|Weight||'' CHR ''|'')) = [two_fields_node1]
   \<and> esn_txn_id (esn_sign two_fields_node1 (sl_read ''d|20250102|130000|u1|1001|1|10|0|8|1|1|1|x|x||u1|20|Signer||'' CHR ''|'') 20 2) = 0
   \<and> \<not> list_all cp_cleared (esn_plates
         (esn_free_signed_values (esn_sign two_fields_node1 (sl_read ''d|20250102|130000|u1|1001|1|10|0|8|1|1|1|x|x||u1|20|Signer||'' CHR ''|'') 20 2) 2))
   \<and> map node_plates_summary (in_tree (process_input [] config_two_fields []
         (audit_lines [''d|20250101|120000|u1|1001|1|11|0|7|2|1|1|x|x||42|12|Weight||'', ''d|20250102|130000|u1|1001|1|10|0|8|1|1|1|x|x||u1|20|Signer||''])))
     = [[(11, RECORD_NORMAL, [12])]]"
proof -
  have a: "in_tree (process_line [] config_two_fields \<lparr>in_txn_id = 0, in_last_txn = [], in_tree = []\<rparr> (sl_read ''d|20250101|120000|u1|1001|1|11|0|7|2|1|1|x|x||42|12|Weight||'' CHR ''|''))
      = [two_fields_node1]"
    by (simp add: two_fields_line1 two_fields_state1_def)
  have b: "esn_txn_id (esn_sign two_fields_node1 (sl_read ''d|20250102|130000|u1|1001|1|10|0|8|1|1|1|x|x||u1|20|Signer||'' CHR ''|'') 20 2) = 0"
    by code_simp
  have c: "\<not> list_all cp_cleared (esn_plates
         (esn_free_signed_values (esn_sign two_fields_node1 (sl_read ''d|20250102|130000|u1|1001|1|10|0|8|1|1|1|x|x||u1|20|Signer||'' CHR ''|'') 20 2) 2))"
    by code_simp
  have d: "map node_plates_summary (in_tree (process_input [] config_two_fields []
         (audit_lines [''d|20250101|120000|u1|1001|1|11|0|7|2|1|1|x|x||42|12|Weight||'', ''d|20250102|130000|u1|1001|1|10|0|8|1|1|1|x|x||u1|20|Signer||''])))
     = [[(11, RECORD_NORMAL, [12])]]"
    by (simp add: process_input_def audit_lines_def two_fields_line1 two_fields_line2)
  show ?thesis using a b c d by blast
qed

subsection \<open>Transaction grouping\<close>













subsection \<open>Lines of unusual shape\<close>










text \<open>Numbers outside the range of a \<open>long\<close> are read as its bounds.\<close>

lemma atoi_out_of_range:
  "atoll ''99999999999999999999'' = 9223372036854775807"
  "atoi ''9223372036854775808'' = - 1"
  "atoi ''-99999999999999999999'' = 0"
  "atoi ''18446744073709551616'' = - 1"
  by code_simp+

















subsection \<open>The wildcard visit range of the configuration\<close>

lemma visit_range_wildcard_eq: "visit_range_wildcard = [RL 0 65535]"
  by (simp add: visit_range_wildcard_def rl_addtofront_def)

lemma sint_ucast_visit: "sint (ucast (visit :: 32 word) :: 64 word) = uint visit"
proof -
  have "uint visit < 2 ^ 32" using uint_bounded [of visit] by simp
  then have "uint visit < 2 ^ 63" by simp
  moreover have "0 \<le> uint visit" by simp
  then have "- (2 ^ 63) \<le> uint visit" by (rule order_trans [rotated]) simp
  ultimately have "signed_take_bit 63 (uint visit) = uint visit"
    by (intro signed_take_bit_int_eq_self) simp_all
  then show ?thesis by (simp add: signed_ucast_eq)
qed

lemma wildcard_contains: "rl_contains visit_range_wildcard (ucast (visit :: 32 word)) \<longleftrightarrow> visit \<le> 65535"
proof -
  have "sint (ucast visit :: 64 word) = uint visit"
    by (rule sint_ucast_visit)
  moreover have "visit \<le> 65535 \<longleftrightarrow> uint visit \<le> 65535"
    by (simp add: word_le_def)
  ultimately show ?thesis
    by (simp add: visit_range_wildcard_eq)
qed

lemma signature_visits:
  "c \<in> set (signature (sig_config serial name sig_plate visits flds) plates)
   \<Longrightarrow> esc_visits c = visits"
  by (auto simp: signature_def sig_config_def rl_dup_id)

text \<open>
  Claim C10. The action for the visit range \<open>*\<close> builds the single node \<open>[0, 65535]\<close>.
  Every configuration record that the grammar builds for a signature declared with
  \<open>visit *\<close> therefore applies to an event exactly when the record's plate is the event's,
  the visit number is at most 65535 and the field position is not ignored;
  \<open>rl_fromstring\<close> gives \<open>[0, 2^31 - 1]\<close> for \<open>*\<close>, a different list.
\<close>

theorem visit_wildcard_range:
  "visit_range_wildcard = [RL 0 65535]
   \<and> (rl_contains visit_range_wildcard (ucast visit) \<longleftrightarrow> visit \<le> 65535)
   \<and> (c \<in> set (signature (sig_config serial name sig_plate visit_range_wildcard flds) plates)
        \<longrightarrow> (config_applies c plate visit field
              \<longleftrightarrow> esc_plate c = plate \<and> visit \<le> 65535
                  \<and> \<not> rl_contains (esc_ignore_fields c) (scast field)))
   \<and> snd (rl_fromstring prior ''*'') = [RL 0 (2 ^ 31 - 1)]
   \<and> snd (rl_fromstring prior ''*'') \<noteq> visit_range_wildcard"
  using wildcard_contains [of visit]
    signature_visits [of c serial name sig_plate visit_range_wildcard flds plates]
  by (auto simp: config_applies_def rl_fromstring_def visit_range_wildcard_eq)

theorem visit_wildcard_range_witness:
  "hd config_one_field
     \<in> set (signature (sig_config 1 ''A'' 10 visit_range_wildcard (range_element_single 20))
              (plate_config_more [plate_defn 2 10 []] (plate_defn 3 11 [])))
   \<and> esc_plate (hd config_one_field) = 11
   \<and> config_applies (hd config_one_field) 11 65535 12
   \<and> \<not> config_applies (hd config_one_field) 11 65536 12
   \<and> rl_contains visit_range_wildcard (ucast (65535 :: 32 word))
   \<and> \<not> rl_contains visit_range_wildcard (ucast (65536 :: 32 word))
   \<and> rl_contains (snd (rl_fromstring [] ''*'')) (ucast (65536 :: 32 word))"
proof -
  have a: "hd config_one_field
     \<in> set (signature (sig_config 1 ''A'' 10 visit_range_wildcard (range_element_single 20))
              (plate_config_more [plate_defn 2 10 []] (plate_defn 3 11 [])))"
    by (simp add: config_one_field_def signature_def plate_config_more_def)
  have b: "esc_plate (hd config_one_field) = 11"
      "esc_ignore_fields (hd config_one_field) = []"
    by (simp_all add: config_one_field_def signature_def plate_config_more_def plate_defn_def
        esc_alloc_def)
  have c: "rl_contains (snd (rl_fromstring [] ''*'')) (ucast (65536 :: 32 word))"
    by (simp add: rl_fromstring_def)
  show ?thesis
    using visit_wildcard_range [of 65535 "hd config_one_field" 1 "''A''" 10
          "range_element_single 20"
          "plate_config_more [plate_defn 2 10 []] (plate_defn 3 11 [])" 11 12 "[]"]
      visit_wildcard_range [of 65536 "hd config_one_field" 1 "''A''" 10
          "range_element_single 20"
          "plate_config_more [plate_defn 2 10 []] (plate_defn 3 11 [])" 11 12 "[]"]
      a b c
    by simp
qed

end
